theory Spec2Isabelle
  imports Main "HOL-Library.Sublist" "HOL-Library.AList"
begin

section \<open>Python strings\<close>

text \<open>
  A Python \<open>str\<close> is modelled as a \<open>string\<close>: each \<open>char\<close> stands for the code point of
  the same number, so the model covers the texts whose code points are below 256. The
  character classes below are Python's, cut down to that range.
\<close>

definition LF :: char where
  "LF = CHR 0x0A"

definition CR :: char where
  "CR = CHR 0x0D"

definition isspace :: "char \<Rightarrow> bool" where
  \<comment> \<open>\<open>str.isspace\<close> of one character, also the class \<open>\s\<close> of \<open>re\<close> on \<open>str\<close> patterns:
      TAB, LF, VT, FF, CR, FS, GS, RS, US, SPACE, NEL, NBSP.\<close>
  "isspace c =
     (let n = (of_char c :: nat)
      in (9 \<le> n \<and> n \<le> 13) \<or> (28 \<le> n \<and> n \<le> 32) \<or> n = 133 \<or> n = 160)"

definition is_linebreak :: "char \<Rightarrow> bool" where
  \<comment> \<open>the line boundaries of \<open>str.splitlines\<close>: LF, VT, FF, CR, FS, GS, RS, NEL.\<close>
  "is_linebreak c =
     (let n = (of_char c :: nat)
      in (10 \<le> n \<and> n \<le> 13) \<or> (28 \<le> n \<and> n \<le> 30) \<or> n = 133)"

text \<open>\<open>x in s\<close> on strings is \<^const>\<open>sublist\<close>; \<open>s.startswith(p)\<close> is \<^const>\<open>prefix\<close>.\<close>

definition str_in :: "string \<Rightarrow> string \<Rightarrow> bool" where
  "str_in x s = sublist x s"

definition startswith :: "string \<Rightarrow> string \<Rightarrow> bool" where
  "startswith s p = prefix p s"

definition strip :: "string \<Rightarrow> string" where
  \<comment> \<open>\<open>s.strip()\<close>: whitespace removed at both ends.\<close>
  "strip s = rev (dropWhile isspace (rev (dropWhile isspace s)))"

text \<open>
  \<open>s.splitlines()\<close>: the text is cut at every line boundary, CR LF counting as one; the
  boundaries are dropped and a text that ends in a boundary has no empty last line.
  \<open>cur\<close> is the line read so far.
\<close>

fun splitlines_from :: "string \<Rightarrow> string \<Rightarrow> string list" where
  "splitlines_from cur [] = (if cur = [] then [] else [cur])"
| "splitlines_from cur [c] =
     (if is_linebreak c then [cur] else [cur @ [c]])"
| "splitlines_from cur (c # d # ds) =
     (if c = CR \<and> d = LF then cur # splitlines_from [] ds
      else if is_linebreak c then cur # splitlines_from [] (d # ds)
      else splitlines_from (cur @ [c]) (d # ds))"

definition splitlines :: "string \<Rightarrow> string list" where
  "splitlines s = splitlines_from [] s"

section \<open>The app registrar\<close>

definition app_entry :: "string \<Rightarrow> string" where
  \<comment> \<open>\<open>f"    '{app_name}',\n"\<close>\<close>
  "app_entry app_name = ''    '' @ [CHR 0x27] @ app_name @ [CHR 0x27] @ '','' @ [LF]"

text \<open>
  The loop of \<open>add_app_to_settings\<close> over the lines, with its two variables
  \<open>new_content\<close> and \<open>in_installed\<close> as arguments.
\<close>

fun add_app_loop :: "string \<Rightarrow> string \<Rightarrow> bool \<Rightarrow> string list \<Rightarrow> string" where
  "add_app_loop app_name new_content in_installed [] = new_content"
| "add_app_loop app_name new_content in_installed (line # ls) =
     (let in_installed1 = (if str_in ''INSTALLED_APPS'' line then True else in_installed)
      in if in_installed1 \<and> startswith (strip line) '']''
         then add_app_loop app_name
                (new_content @ app_entry app_name @ line @ [LF]) False ls
         else add_app_loop app_name (new_content @ line @ [LF]) in_installed1 ls)"

text \<open>
  The body of \<open>add_app_to_settings\<close> between reading and writing: \<open>None\<close> is the early
  return, which writes nothing, \<open>Some new_content\<close> is the text written back.
\<close>

definition add_app_content :: "string \<Rightarrow> string \<Rightarrow> string option" where
  "add_app_content content app_name =
     (if str_in app_name content then None
      else Some (add_app_loop app_name [] False (splitlines content)))"

section \<open>Files\<close>

text \<open>
  The file system is a finite table from paths to nodes. A path is the list of its
  components; \<open>p / name\<close> appends one component.
\<close>

type_synonym path = "string list"

datatype node = File string | Dir

type_synonym filesystem = "(path \<times> node) list"

datatype error =
    SystemExit nat
  | FileNotFoundError
  | IsADirectoryError
  | NotADirectoryError
  | FileExistsError
  | CalledProcessError nat
  | OSError
  | ReTemplateEscape

definition joinpath :: "path \<Rightarrow> string \<Rightarrow> path" where
  "joinpath p name = p @ [name]"

definition path_exists :: "filesystem \<Rightarrow> path \<Rightarrow> bool" where
  "path_exists fs p = (map_of fs p \<noteq> None)"

definition is_dir :: "filesystem \<Rightarrow> path \<Rightarrow> bool" where
  "is_dir fs p = (map_of fs p = Some Dir)"

definition iterdir :: "filesystem \<Rightarrow> path \<Rightarrow> error + path list" where
  \<comment> \<open>the entries of a directory: the paths of the table one component below it.\<close>
  "iterdir fs d =
     (case map_of fs d of
        None \<Rightarrow> Inl FileNotFoundError
      | Some (File t) \<Rightarrow> Inl NotADirectoryError
      | Some Dir \<Rightarrow>
          Inr (filter (\<lambda>p. p \<noteq> [] \<and> butlast p = d) (remdups (map fst fs))))"

definition mkdir_exist_ok :: "filesystem \<Rightarrow> path \<Rightarrow> error option \<times> filesystem" where
  \<comment> \<open>\<open>p.mkdir(exist_ok=True)\<close>, with \<open>parents=False\<close>.\<close>
  "mkdir_exist_ok fs p =
     (case map_of fs p of
        Some Dir \<Rightarrow> (None, fs)
      | Some (File t) \<Rightarrow> (Some FileExistsError, fs)
      | None \<Rightarrow>
          (case map_of fs (butlast p) of
             Some Dir \<Rightarrow> (None, AList.update p Dir fs)
           | Some (File t) \<Rightarrow> (Some NotADirectoryError, fs)
           | None \<Rightarrow> (Some FileNotFoundError, fs)))"

fun universal_newlines :: "string \<Rightarrow> string" where
  \<comment> \<open>text mode with \<open>newline=None\<close>, on input: CR LF and a lone CR are read as LF.\<close>
  "universal_newlines [] = []"
| "universal_newlines [c] = (if c = CR then [LF] else [c])"
| "universal_newlines (c # d # ds) =
     (if c = CR \<and> d = LF then LF # universal_newlines ds
      else if c = CR then LF # universal_newlines (d # ds)
      else c # universal_newlines (d # ds))"

definition read_text :: "filesystem \<Rightarrow> path \<Rightarrow> error + string" where
  "read_text fs p =
     (case map_of fs p of
        None \<Rightarrow> Inl FileNotFoundError
      | Some Dir \<Rightarrow> Inl IsADirectoryError
      | Some (File t) \<Rightarrow> Inr (universal_newlines t))"

definition write_file :: "filesystem \<Rightarrow> path \<Rightarrow> string \<Rightarrow> error option \<times> filesystem" where
  \<comment> \<open>the file is created or truncated and its content set; nothing is translated
      (on output, text mode writes LF as the line separator of the platform, LF here).\<close>
  "write_file fs p t =
     (case map_of fs p of
        Some Dir \<Rightarrow> (Some IsADirectoryError, fs)
      | Some (File old) \<Rightarrow> (None, AList.update p (File t) fs)
      | None \<Rightarrow>
          (case map_of fs (butlast p) of
             Some Dir \<Rightarrow> (None, AList.update p (File t) fs)
           | Some (File u) \<Rightarrow> (Some NotADirectoryError, fs)
           | None \<Rightarrow> (Some FileNotFoundError, fs)))"

definition write_text :: "filesystem \<Rightarrow> path \<Rightarrow> string \<Rightarrow> error option \<times> filesystem" where
  "write_text fs p t = write_file fs p t"

definition shutil_copy :: "filesystem \<Rightarrow> path \<Rightarrow> path \<Rightarrow> error option \<times> filesystem" where
  \<comment> \<open>\<open>shutil.copy(src, dst)\<close>: the bytes of \<open>src\<close>, into \<open>dst\<close> or, when \<open>dst\<close> is a
      directory, into the entry of that directory named as \<open>src\<close>.\<close>
  "shutil_copy fs src dst =
     (case map_of fs src of
        None \<Rightarrow> (Some FileNotFoundError, fs)
      | Some Dir \<Rightarrow> (Some IsADirectoryError, fs)
      | Some (File t) \<Rightarrow>
          (if is_dir fs dst \<and> src \<noteq> [] then write_file fs (joinpath dst (last src)) t
           else write_file fs dst t))"

section \<open>The app registrar on a file\<close>

definition add_app_to_settings ::
  "filesystem \<Rightarrow> path \<Rightarrow> string \<Rightarrow> error option \<times> filesystem" where
  "add_app_to_settings fs settings_path app_name =
     (case read_text fs settings_path of
        Inl e \<Rightarrow> (Some e, fs)
      | Inr content \<Rightarrow>
          (case add_app_content content app_name of
             None \<Rightarrow> (None, fs)
           | Some new_content \<Rightarrow> write_text fs settings_path new_content))"

section \<open>The reference fixer\<close>

text \<open>
  Both patterns of \<open>fix_project_references\<close> have the shape
  \<^verbatim>\<open>NAME\s*=\s*["'].*?["']\<close>. Matching it at the start of a text needs no backtracking:
  \<^verbatim>\<open>\s*\<close> is greedy and what follows it is no whitespace, so it takes all the whitespace;
  \<^verbatim>\<open>.*?\<close> is lazy and \<^verbatim>\<open>.\<close> is any character but LF, so it stops at the first quote, and
  fails when an LF or the end of the text comes first.
\<close>

definition is_quote :: "char \<Rightarrow> bool" where
  \<comment> \<open>the class \<^verbatim>\<open>["']\<close>\<close>
  "is_quote c = (c = CHR 0x22 \<or> c = CHR 0x27)"

fun lazy_to_quote :: "string \<Rightarrow> string option" where
  \<comment> \<open>\<^verbatim>\<open>.*?["']\<close> at the start of the text: what is left after the closing quote.\<close>
  "lazy_to_quote [] = None"
| "lazy_to_quote (c # cs) =
     (if is_quote c then Some cs else if c = LF then None else lazy_to_quote cs)"

definition match_assignment :: "string \<Rightarrow> string \<Rightarrow> string option" where
  \<comment> \<open>the pattern for \<open>name\<close> matched at the start of \<open>s\<close>: what is left after the match.\<close>
  "match_assignment name s =
     (if prefix name s then
        (case dropWhile isspace (drop (length name) s) of
           [] \<Rightarrow> None
         | c # s1 \<Rightarrow>
             if c = CHR ''='' then
               (case dropWhile isspace s1 of
                  [] \<Rightarrow> None
                | q # s2 \<Rightarrow> if is_quote q then lazy_to_quote s2 else None)
             else None)
      else None)"

text \<open>
  \<open>re.sub(pattern, repl, text)\<close> for such a pattern: the text is scanned from the left,
  every match found is replaced by \<open>repl\<close> and the scan goes on after the match (no
  \<open>count\<close> is given, so all the matches are replaced). The pattern matches no empty text.
\<close>

function re_sub :: "string \<Rightarrow> string \<Rightarrow> string \<Rightarrow> string" where
  "re_sub name repl [] = []"
| "re_sub name repl (c # cs) =
     (case match_assignment name (c # cs) of
        Some rest \<Rightarrow> repl @ re_sub name repl rest
      | None \<Rightarrow> c # re_sub name repl cs)"
  by pat_completeness auto
termination
proof (relation "measure (\<lambda>(name, repl, s). length s)")
  show "wf (measure (\<lambda>(name, repl, s). length s))"
    by simp
next
  fix name repl :: string and c cs rest
  assume m: "match_assignment name (c # cs) = Some rest"
  have lz: "length r < Suc (length s)" if "lazy_to_quote s = Some r" for s r
    using that by (induction s arbitrary: r) (auto split: if_splits)
  have dw: "length (dropWhile isspace s) \<le> length s" for s
    by (rule length_dropWhile_le)
  from m have p: "prefix name (c # cs)"
    by (auto simp: match_assignment_def split: if_splits)
  from m p obtain e s1 where
    s1: "dropWhile isspace (drop (length name) (c # cs)) = e # s1"
    and e: "e = CHR ''=''"
    by (auto simp: match_assignment_def split: if_splits list.splits)
  from m p s1 e obtain q s2 where
    s2: "dropWhile isspace s1 = q # s2" and r: "lazy_to_quote s2 = Some rest"
    by (auto simp: match_assignment_def split: if_splits list.splits)
  have "length (e # s1) \<le> length (drop (length name) (c # cs))"
    using dw [of "drop (length name) (c # cs)"] s1 by simp
  then have a: "length s1 < length (c # cs)"
    by simp
  have "length (q # s2) \<le> length s1"
    using dw [of s1] s2 by simp
  then have b: "length s2 < length s1"
    by simp
  from a b lz [OF r] show "((name, repl, rest), (name, repl, c # cs))
      \<in> measure (\<lambda>(name, repl, s). length s)"
    by simp
next
  fix name repl :: string and c cs
  show "((name, repl, cs), (name, repl, c # cs)) \<in> measure (\<lambda>(name, repl, s). length s)"
    by simp
qed

definition re_template :: "string \<Rightarrow> error + string" where
  \<comment> \<open>the replacement of \<open>re.sub\<close> is a template: without a backslash it stands for
      itself. A backslash starts an escape, which \<open>re\<close> expands or rejects; the model does
      not go into escapes and answers \<open>ReTemplateEscape\<close> for every such template.\<close>
  "re_template repl = (if CHR 0x5C \<in> set repl then Inl ReTemplateEscape else Inr repl)"

definition root_urlconf_repl :: "string \<Rightarrow> string" where
  \<comment> \<open>\<^verbatim>\<open>f'ROOT_URLCONF = "{safe_project_name}.urls"'\<close>\<close>
  "root_urlconf_repl safe_project_name =
     ''ROOT_URLCONF = '' @ [CHR 0x22] @ safe_project_name @ ''.urls'' @ [CHR 0x22]"

definition wsgi_application_repl :: "string \<Rightarrow> string" where
  \<comment> \<open>\<^verbatim>\<open>f'WSGI_APPLICATION = "{safe_project_name}.wsgi.application"'\<close>\<close>
  "wsgi_application_repl safe_project_name =
     ''WSGI_APPLICATION = '' @ [CHR 0x22] @ safe_project_name @ ''.wsgi.application''
       @ [CHR 0x22]"

definition fix_references_text :: "string \<Rightarrow> string \<Rightarrow> error + string" where
  \<comment> \<open>the two substitutions of \<open>fix_project_references\<close>, on the text read.\<close>
  "fix_references_text text safe_project_name =
     (case re_template (root_urlconf_repl safe_project_name) of
        Inl e \<Rightarrow> Inl e
      | Inr repl1 \<Rightarrow>
          (case re_template (wsgi_application_repl safe_project_name) of
             Inl e \<Rightarrow> Inl e
           | Inr repl2 \<Rightarrow>
               Inr (re_sub ''WSGI_APPLICATION'' repl2
                      (re_sub ''ROOT_URLCONF'' repl1 text))))"

definition fix_project_references ::
  "filesystem \<Rightarrow> path \<Rightarrow> string \<Rightarrow> error option \<times> filesystem" where
  "fix_project_references fs settings_path safe_project_name =
     (case read_text fs settings_path of
        Inl e \<Rightarrow> (Some e, fs)
      | Inr text \<Rightarrow>
          (case fix_references_text text safe_project_name of
             Inl e \<Rightarrow> (Some e, fs)
           | Inr text' \<Rightarrow> write_text fs settings_path text'))"

section \<open>The command\<close>

text \<open>
  \<open>s.replace(old, new)\<close>: every occurrence of \<open>old\<close>, found from the left without overlap,
  is replaced; for an empty \<open>old\<close>, \<open>new\<close> is put before every character and at the end.
\<close>

fun str_replace :: "string \<Rightarrow> string \<Rightarrow> string \<Rightarrow> string" where
  "str_replace old new [] = (if old = [] then new else [])"
| "str_replace old new (c # cs) =
     (if old = [] then new @ c # str_replace old new cs
      else if prefix old (c # cs)
        then new @ str_replace old new (drop (length old - 1) cs)
      else c # str_replace old new cs)"

text \<open>
  What the command gets from outside the program: the directory of the presets, the
  working directory, the three external commands and the secret key generator. A
  command started by \<open>subprocess.run\<close> either cannot be started or ends with an exit status,
  leaving a file system behind; what it does to the file system is not known here, so it
  is any function.
\<close>

datatype proc_result = Exited nat filesystem | NotStarted

record environment =
  PRESETS_DIR :: path
  cwd :: path
  django_admin_startproject :: "filesystem \<Rightarrow> path \<Rightarrow> string \<Rightarrow> proc_result"
  manage_py_startapp :: "filesystem \<Rightarrow> path \<Rightarrow> string \<Rightarrow> proc_result"
  pip_install :: "filesystem \<Rightarrow> path \<Rightarrow> proc_result"
  get_random_secret_key :: string

definition subprocess_run ::
  "bool \<Rightarrow> filesystem \<Rightarrow> proc_result \<Rightarrow> error option \<times> filesystem" where
  \<comment> \<open>\<open>subprocess.run(..., check=check)\<close>\<close>
  "subprocess_run check fs r =
     (case r of
        NotStarted \<Rightarrow> (Some OSError, fs)
      | Exited status fs' \<Rightarrow>
          if check \<and> status \<noteq> 0 then (Some (CalledProcessError status), fs')
          else (None, fs'))"

definition and_then ::
  "error option \<times> filesystem \<Rightarrow> (filesystem \<Rightarrow> error option \<times> filesystem)
     \<Rightarrow> error option \<times> filesystem" where
  \<comment> \<open>the next statement runs when the one before raised nothing.\<close>
  "and_then r k = (case r of (None, fs) \<Rightarrow> k fs | (Some e, fs) \<Rightarrow> (Some e, fs))"

definition ALLOWED_PRESET_FILES :: "string list" where
  "ALLOWED_PRESET_FILES = [''requirements.txt'']"

fun copy_preset_files ::
  "filesystem \<Rightarrow> path list \<Rightarrow> path \<Rightarrow> error option \<times> filesystem" where
  \<comment> \<open>step 6, the loop over \<open>preset_path.iterdir()\<close>; \<open>file.name\<close> is the last component.\<close>
  "copy_preset_files fs [] project_root = (None, fs)"
| "copy_preset_files fs (file # files) project_root =
     (if last file \<notin> set ALLOWED_PRESET_FILES then copy_preset_files fs files project_root
      else and_then (shutil_copy fs file (joinpath project_root (last file)))
             (\<lambda>fs'. copy_preset_files fs' files project_root))"

definition handle_env_template ::
  "environment \<Rightarrow> filesystem \<Rightarrow> path \<Rightarrow> path \<Rightarrow> error option \<times> filesystem" where
  \<comment> \<open>step 7: \<open>.env.template\<close> of the preset becomes \<open>.env\<close> of the project.\<close>
  "handle_env_template env fs preset_path project_root =
     (let template_env = joinpath preset_path ''.env.template'';
          env_path = joinpath project_root ''.env''
      in if path_exists fs template_env then
           (case read_text fs template_env of
              Inl e \<Rightarrow> (Some e, fs)
            | Inr t \<Rightarrow>
                write_text fs env_path
                  (str_replace ''{{SECRET_KEY}}'' (get_random_secret_key env) t))
         else (None, fs))"

definition project ::
  "environment \<Rightarrow> filesystem \<Rightarrow> string \<Rightarrow> string \<Rightarrow> string \<Rightarrow> bool
     \<Rightarrow> error option \<times> filesystem" where
  "project env fs project_name app_name preset install =
     (let preset_path = joinpath (PRESETS_DIR env) preset
      in if \<not> path_exists fs preset_path then (Some (SystemExit 1), fs)
      else
        let safe_project_name = str_replace ''-'' ''_'' project_name;
            safe_app_name = str_replace ''-'' ''_'' app_name;
            project_root = joinpath (cwd env) project_name
        in case (if path_exists fs project_root
                 then (case iterdir fs project_root of
                         Inl e \<Rightarrow> Inl e
                       | Inr entries \<Rightarrow> Inr (entries \<noteq> []))
                 else Inr False) of
             Inl e \<Rightarrow> (Some e, fs)
           | Inr True \<Rightarrow> (Some (SystemExit 1), fs)
           | Inr False \<Rightarrow>
        and_then (mkdir_exist_ok fs project_root) (\<lambda>fs.
        and_then (subprocess_run True fs
                    (django_admin_startproject env fs project_root safe_project_name)) (\<lambda>fs.
        let inner_project_path = joinpath project_root safe_project_name;
            src_settings = joinpath preset_path ''settings.py'';
            target_settings = joinpath inner_project_path ''settings.py''
        in
        and_then (if path_exists fs src_settings
                  then and_then (shutil_copy fs src_settings target_settings)
                         (\<lambda>fs. fix_project_references fs target_settings safe_project_name)
                  else (None, fs)) (\<lambda>fs.
        and_then (subprocess_run True fs
                    (manage_py_startapp env fs project_root safe_app_name)) (\<lambda>fs.
        and_then (add_app_to_settings fs target_settings safe_app_name) (\<lambda>fs.
        and_then (case iterdir fs preset_path of
                    Inl e \<Rightarrow> (Some e, fs)
                  | Inr files \<Rightarrow> copy_preset_files fs files project_root) (\<lambda>fs.
        and_then (handle_env_template env fs preset_path project_root) (\<lambda>fs.
        if install then subprocess_run False fs (pip_install env fs project_root)
        else (None, fs)))))))))"

definition exit_status :: "error option \<Rightarrow> nat" where
  \<comment> \<open>the exit status of the process: that of \<open>SystemExit\<close>, 1 for any other exception
      that reaches the top, 0 when the command returns.\<close>
  "exit_status r = (case r of None \<Rightarrow> 0 | Some (SystemExit n) \<Rightarrow> n | Some e \<Rightarrow> 1)"

section \<open>Notions used in the statements\<close>

definition join_lines :: "string list \<Rightarrow> string" where
  \<comment> \<open>the lines, each followed by one LF.\<close>
  "join_lines ls = concat (map (\<lambda>l. l @ [LF]) ls)"



text \<open>
  Texts on which the reference fixer is followed piece by piece. \<open>assignment_start name s\<close>:
  \<open>s\<close> begins with \<open>name\<close>, and after \<open>name\<close> and the whitespace that follows it comes \<open>=\<close>
  or the end of \<open>s\<close>, so that the pattern for \<open>name\<close> can match, or could with more text
  behind \<open>s\<close>. \<open>no_assignment name u\<close>: no assignment to \<open>name\<close> starts in \<open>u\<close>, whatever
  follows \<open>u\<close>: \<open>u\<close> does not end inside \<open>name\<close>, and where \<open>name\<close> occurs in \<open>u\<close> the next
  character that is no whitespace is there and is not \<open>=\<close>.
\<close>

definition assignment_start :: "string \<Rightarrow> string \<Rightarrow> bool" where
  "assignment_start name s =
     (prefix name s \<and>
      (case dropWhile isspace (drop (length name) s) of
         [] \<Rightarrow> True
       | c # cs \<Rightarrow> c = CHR ''=''))"

definition no_assignment :: "string \<Rightarrow> string \<Rightarrow> bool" where
  "no_assignment name u =
     list_all (\<lambda>s. s = [] \<or> (\<not> prefix s name \<and> \<not> assignment_start name s)) (suffixes u)"

text \<open>
  A settings text cut in pieces: \<open>Plain\<close> stretches, in which no assignment to either name
  starts; \<open>Root\<close> pieces, each a text that the pattern for \<open>ROOT_URLCONF\<close> matches from its
  first to its last character; \<open>Wsgi\<close> pieces, the same for \<open>WSGI_APPLICATION\<close>, in which no
  assignment to \<open>ROOT_URLCONF\<close> starts. \<open>render\<close> is the text, \<open>fixed\<close> the piece with its
  assignment replaced by that of the safe project name.
\<close>

datatype piece = Plain string | Root string | Wsgi string

fun piece_text :: "piece \<Rightarrow> string" where
  "piece_text (Plain u) = u"
| "piece_text (Root a) = a"
| "piece_text (Wsgi b) = b"

definition render :: "piece list \<Rightarrow> string" where
  "render ps = concat (map piece_text ps)"

fun piece_ok :: "piece \<Rightarrow> bool" where
  "piece_ok (Plain u) =
     (no_assignment ''ROOT_URLCONF'' u \<and> no_assignment ''WSGI_APPLICATION'' u)"
| "piece_ok (Root a) = (match_assignment ''ROOT_URLCONF'' a = Some [])"
| "piece_ok (Wsgi b) =
     (match_assignment ''WSGI_APPLICATION'' b = Some [] \<and> no_assignment ''ROOT_URLCONF'' b)"

fun fixed :: "string \<Rightarrow> piece \<Rightarrow> piece" where
  "fixed safe_project_name (Plain u) = Plain u"
| "fixed safe_project_name (Root a) = Root (root_urlconf_repl safe_project_name)"
| "fixed safe_project_name (Wsgi b) = Wsgi (wsgi_application_repl safe_project_name)"

text \<open>
  The safe project name reaches the fixer after \<open>django-admin startproject\<close> has accepted it
  (\<open>check=True\<close>), that is as an identifier: it has no whitespace, \<open>=\<close>, quote or backslash.
\<close>

definition safe_name_ok :: "string \<Rightarrow> bool" where
  "safe_name_ok n =
     list_all (\<lambda>c. \<not> isspace c \<and> c \<noteq> CHR ''='' \<and> \<not> is_quote c \<and> c \<noteq> CHR 0x5C) n"

section \<open>Properties\<close>

lemma join_lines_simps [simp]:
  "join_lines [] = []"
  "join_lines (l # ls) = l @ LF # join_lines ls"
  "join_lines (xs @ ys) = join_lines xs @ join_lines ys"
  by (simp_all add: join_lines_def)

lemma add_app_loop_acc:
  "add_app_loop app acc b ls = acc @ add_app_loop app [] b ls"
proof (induction ls arbitrary: acc b)
  case Nil
  show ?case by simp
next
  case (Cons l ls)
  show ?case
    by (simp add: Let_def Cons.IH [of "acc @ app_entry app @ l @ [LF]"]
        Cons.IH [of "acc @ l @ [LF]"] Cons.IH [of "app_entry app @ l @ [LF]"]
        Cons.IH [of "l @ [LF]"])
qed

lemma add_app_loop_no_marker:
  "\<forall>l\<in>set ls. \<not> str_in ''INSTALLED_APPS'' l \<Longrightarrow>
   add_app_loop app acc False ls = acc @ join_lines ls"
  by (induction ls arbitrary: acc) simp_all

lemma add_app_loop_no_closer:
  "\<forall>l\<in>set ls. \<not> startswith (strip l) '']'' \<Longrightarrow>
   add_app_loop app acc True (ls @ rest) = add_app_loop app (acc @ join_lines ls) True rest"
  by (induction ls arbitrary: acc) simp_all

lemma add_app_loop_skip:
  "\<forall>l\<in>set ls. \<not> str_in ''INSTALLED_APPS'' l \<Longrightarrow>
   add_app_loop app acc False (ls @ rest) = add_app_loop app (acc @ join_lines ls) False rest"
  by (induction ls arbitrary: acc) simp_all

lemma is_linebreak_LF [simp]: "is_linebreak LF"
  by (simp add: is_linebreak_def LF_def)

lemma is_linebreak_CR [simp]: "is_linebreak CR"
  by (simp add: is_linebreak_def CR_def)

lemma CR_neq_LF [simp]: "CR \<noteq> LF" "LF \<noteq> CR"
  by (simp_all add: CR_def LF_def)

lemma splitlines_from_lines:
  "\<forall>c\<in>set cur. \<not> is_linebreak c \<Longrightarrow> l \<in> set (splitlines_from cur s) \<Longrightarrow>
   \<forall>c\<in>set l. \<not> is_linebreak c"
proof (induction cur s rule: splitlines_from.induct)
  case (1 cur)
  then show ?case by (simp split: if_splits)
next
  case (2 cur c)
  then show ?case by (simp split: if_splits)
next
  case (3 cur c d ds)
  show ?case
  proof (cases "c = CR \<and> d = LF")
    case True
    then have "splitlines_from cur (c # d # ds) = cur # splitlines_from [] ds"
      by simp
    with "3.prems" have "l = cur \<or> l \<in> set (splitlines_from [] ds)"
      by simp
    then show ?thesis
    proof
      assume "l = cur"
      with "3.prems" show ?thesis by blast
    next
      assume "l \<in> set (splitlines_from [] ds)"
      with "3.IH"(1) [OF True] show ?thesis by simp
    qed
  next
    case False
    note F = this
    show ?thesis
    proof (cases "is_linebreak c")
      case True
      have "splitlines_from cur (c # d # ds) = cur # splitlines_from [] (d # ds)"
        by (simp add: F True)
      with "3.prems" have "l = cur \<or> l \<in> set (splitlines_from [] (d # ds))"
        by simp
      then show ?thesis
      proof
        assume "l = cur"
        with "3.prems" show ?thesis by blast
      next
        assume "l \<in> set (splitlines_from [] (d # ds))"
        with "3.IH"(2) [OF F True] show ?thesis by simp
      qed
    next
      case False
      have "splitlines_from cur (c # d # ds) = splitlines_from (cur @ [c]) (d # ds)"
        by (simp add: F False)
      with "3.prems" have "l \<in> set (splitlines_from (cur @ [c]) (d # ds))"
        by simp
      moreover from False "3.prems" have "\<forall>x\<in>set (cur @ [c]). \<not> is_linebreak x"
        by simp
      ultimately show ?thesis using "3.IH"(3) [OF F False] by blast
    qed
  qed
qed

lemma splitlines_lines:
  "l \<in> set (splitlines s) \<Longrightarrow> \<forall>c\<in>set l. \<not> is_linebreak c"
  unfolding splitlines_def using splitlines_from_lines [of "[]"] by simp

lemma splitlines_from_line:
  "\<forall>c\<in>set l. \<not> is_linebreak c \<Longrightarrow>
   splitlines_from cur (l @ LF # rest) = (cur @ l) # splitlines_from [] rest"
proof (induction l arbitrary: cur)
  case Nil
  show ?case by (cases rest) simp_all
next
  case (Cons c l)
  then have "\<not> is_linebreak c" "c \<noteq> CR" by auto
  moreover obtain d ds where "l @ LF # rest = d # ds" by (cases l) auto
  ultimately show ?case using Cons by simp
qed

lemma splitlines_join_lines:
  "\<forall>l\<in>set ls. \<forall>c\<in>set l. \<not> is_linebreak c \<Longrightarrow> splitlines_from [] (join_lines ls) = ls"
  by (induction ls) (simp_all add: splitlines_from_line)

lemma splitlines_from_Nil_iff: "splitlines_from cur s = [] \<longleftrightarrow> cur = [] \<and> s = []"
  by (induction cur s rule: splitlines_from.induct) auto


lemma universal_newlines_no_CR: "CR \<notin> set (universal_newlines t)"
  by (induction t rule: universal_newlines.induct) simp_all

lemma universal_newlines_id: "CR \<notin> set s \<Longrightarrow> universal_newlines s = s"
  by (induction s rule: universal_newlines.induct) auto

lemma universal_newlines_Nil_iff: "universal_newlines t = [] \<longleftrightarrow> t = []"
  by (induction t rule: universal_newlines.induct) simp_all

lemma join_lines_no_CR:
  "\<forall>l\<in>set ls. CR \<notin> set l \<Longrightarrow> CR \<notin> set (join_lines ls)"
  by (induction ls) simp_all

lemma splitlines_no_CR: "l \<in> set (splitlines s) \<Longrightarrow> CR \<notin> set l"
  using splitlines_lines [of l s] is_linebreak_CR by blast

lemma join_splitlines_no_CR: "CR \<notin> set (join_lines (splitlines s))"
  by (rule join_lines_no_CR) (simp add: splitlines_no_CR)

lemma join_lines_Nil_iff: "join_lines ls = [] \<longleftrightarrow> ls = []"
  by (cases ls) simp_all

lemma join_lines_last: "ls \<noteq> [] \<Longrightarrow> last (join_lines ls) = LF"
  by (induction ls) (simp_all add: join_lines_Nil_iff)

lemma splitlines_Nil_iff: "splitlines s = [] \<longleftrightarrow> s = []"
  by (simp add: splitlines_def splitlines_from_Nil_iff)

lemma splitlines_join_splitlines: "splitlines (join_lines (splitlines s)) = splitlines s"
  unfolding splitlines_def [of "join_lines (splitlines s)"]
  by (rule splitlines_join_lines) (simp add: splitlines_lines)

lemma map_of_update_same: "map_of (AList.update p v fs) p = Some v"
  by (simp add: update_conv')

lemma update_update_same: "AList.update p v (AList.update p v fs) = AList.update p v fs"
  by (rule update_triv) (simp add: update_conv')

lemma write_text_existing:
  "map_of fs p = Some (File old) \<Longrightarrow>
   write_text fs p t = (None, AList.update p (File t) fs)"
  by (simp add: write_text_def write_file_def)

text \<open>
  C8: when the app name occurs anywhere in the text read from the settings file, also
  outside the registration block, \<open>add_app_to_settings\<close> returns at once: nothing is
  written and the file system is the one it started from.
\<close>

theorem add_app_already_present:
  "read_text fs p = Inr content \<Longrightarrow> str_in app content \<Longrightarrow>
   add_app_to_settings fs p app = (None, fs)"
  by (simp add: add_app_to_settings_def add_app_content_def)

text \<open>
  C10: when the app name does not occur in the text and no line holds the marker
  \<open>INSTALLED_APPS\<close>, nothing is inserted, yet the file is written again, as its lines
  each followed by one LF. A file that does not end in LF, or that has a CR, is therefore
  not the same afterwards.
\<close>

theorem add_app_no_marker_rewrites:
  assumes "map_of fs p = Some (File t)"
    and "\<not> str_in app (universal_newlines t)"
    and "\<forall>l\<in>set (splitlines (universal_newlines t)). \<not> str_in ''INSTALLED_APPS'' l"
  shows "add_app_to_settings fs p app =
           (None, AList.update p (File (join_lines (splitlines (universal_newlines t)))) fs)
         \<and> ((t \<noteq> [] \<and> last t \<noteq> LF) \<or> CR \<in> set t \<longrightarrow>
              join_lines (splitlines (universal_newlines t)) \<noteq> t)"
proof
  let ?new = "join_lines (splitlines (universal_newlines t))"
  have "add_app_content (universal_newlines t) app = Some ?new"
    using assms(2,3) by (simp add: add_app_content_def add_app_loop_no_marker)
  then show "add_app_to_settings fs p app = (None, AList.update p (File ?new) fs)"
    using assms(1) by (simp add: add_app_to_settings_def read_text_def write_text_existing)
  show "(t \<noteq> [] \<and> last t \<noteq> LF) \<or> CR \<in> set t \<longrightarrow> ?new \<noteq> t"
  proof
    assume "(t \<noteq> [] \<and> last t \<noteq> LF) \<or> CR \<in> set t"
    then show "?new \<noteq> t"
    proof
      assume a: "t \<noteq> [] \<and> last t \<noteq> LF"
      then have "splitlines (universal_newlines t) \<noteq> []"
        by (simp add: splitlines_Nil_iff universal_newlines_Nil_iff)
      then have "last ?new = LF" by (rule join_lines_last)
      with a show ?thesis by auto
    next
      assume "CR \<in> set t"
      moreover have "CR \<notin> set ?new" by (rule join_splitlines_no_CR)
      ultimately show ?thesis by auto
    qed
  qed
qed


theorem add_app_already_present_witness:
  "read_text [([''proj'', ''settings.py''], File ''# blog\<newline>INSTALLED_APPS = [\<newline>]\<newline>'')]
     [''proj'', ''settings.py''] = Inr ''# blog\<newline>INSTALLED_APPS = [\<newline>]\<newline>''
   \<and> str_in ''blog'' ''# blog\<newline>INSTALLED_APPS = [\<newline>]\<newline>''
   \<and> add_app_to_settings
         [([''proj'', ''settings.py''], File ''# blog\<newline>INSTALLED_APPS = [\<newline>]\<newline>'')]
         [''proj'', ''settings.py''] ''blog''
       = (None, [([''proj'', ''settings.py''], File ''# blog\<newline>INSTALLED_APPS = [\<newline>]\<newline>'')])"
proof -
  have h1: "read_text [([''proj'', ''settings.py''], File ''# blog\<newline>INSTALLED_APPS = [\<newline>]\<newline>'')]
     [''proj'', ''settings.py''] = Inr ''# blog\<newline>INSTALLED_APPS = [\<newline>]\<newline>''"
    by code_simp
  have h2: "str_in ''blog'' ''# blog\<newline>INSTALLED_APPS = [\<newline>]\<newline>''"
    by code_simp
  show ?thesis
    using h1 h2 add_app_already_present [OF h1 h2] by simp
qed

theorem add_app_no_marker_rewrites_witness:
  "map_of [([''proj'', ''settings.py''], File (''DEBUG = True'' @ [CR, LF] @ ''X = 1''))]
     [''proj'', ''settings.py''] = Some (File (''DEBUG = True'' @ [CR, LF] @ ''X = 1''))
   \<and> \<not> str_in ''blog'' (universal_newlines (''DEBUG = True'' @ [CR, LF] @ ''X = 1''))
   \<and> splitlines (universal_newlines (''DEBUG = True'' @ [CR, LF] @ ''X = 1''))
       = [''DEBUG = True'', ''X = 1'']
   \<and> \<not> str_in ''INSTALLED_APPS'' ''DEBUG = True''
   \<and> \<not> str_in ''INSTALLED_APPS'' ''X = 1''
   \<and> ''DEBUG = True'' @ [CR, LF] @ ''X = 1'' \<noteq> []
   \<and> last (''DEBUG = True'' @ [CR, LF] @ ''X = 1'') \<noteq> LF
   \<and> CR \<in> set (''DEBUG = True'' @ [CR, LF] @ ''X = 1'')
   \<and> add_app_to_settings [([''proj'', ''settings.py''], File (''DEBUG = True'' @ [CR, LF] @ ''X = 1''))]
         [''proj'', ''settings.py''] ''blog''
       = (None, [([''proj'', ''settings.py''], File ''DEBUG = True\<newline>X = 1\<newline>'')])
   \<and> ''DEBUG = True\<newline>X = 1\<newline>'' \<noteq> (''DEBUG = True'' @ [CR, LF] @ ''X = 1'')"
proof -
  have h1: "map_of [([''proj'', ''settings.py''], File (''DEBUG = True'' @ [CR, LF] @ ''X = 1''))]
     [''proj'', ''settings.py''] = Some (File (''DEBUG = True'' @ [CR, LF] @ ''X = 1''))"
    by simp
  have u: "universal_newlines (''DEBUG = True'' @ [CR, LF] @ ''X = 1'') = ''DEBUG = True\<newline>X = 1''"
    by code_simp
  have l: "splitlines ''DEBUG = True\<newline>X = 1'' = [''DEBUG = True'', ''X = 1'']"
    by code_simp
  have h2: "\<not> str_in ''blog'' (universal_newlines (''DEBUG = True'' @ [CR, LF] @ ''X = 1''))"
    unfolding u by code_simp
  have h3: "\<forall>l\<in>set (splitlines (universal_newlines (''DEBUG = True'' @ [CR, LF] @ ''X = 1''))).
         \<not> str_in ''INSTALLED_APPS'' l"
    unfolding u l by code_simp
  have j: "join_lines [''DEBUG = True'', ''X = 1''] = ''DEBUG = True\<newline>X = 1\<newline>''"
    by code_simp
  have c: "CR \<in> set (''DEBUG = True'' @ [CR, LF] @ ''X = 1'')" by code_simp
  have e: "last (''DEBUG = True'' @ [CR, LF] @ ''X = 1'') \<noteq> LF" by code_simp
  have m: "\<not> str_in ''INSTALLED_APPS'' ''DEBUG = True''"
    "\<not> str_in ''INSTALLED_APPS'' ''X = 1''"
    by code_simp+
  show ?thesis
    using h1 h2 m c e add_app_no_marker_rewrites [OF h1 h2 h3]
    unfolding u l j by simp
qed

lemma app_entry_contains: "str_in app (x @ app_entry app @ y)"
proof -
  have "x @ app_entry app @ y = (x @ ''    '' @ [CHR 0x27]) @ app @ ([CHR 0x27] @ '','' @ [LF] @ y)"
    by (simp add: app_entry_def)
  then show ?thesis unfolding str_in_def by (metis sublist_appendI)
qed

lemma add_app_loop_dichotomy:
  "add_app_loop app acc b ls = acc @ join_lines ls \<or> str_in app (add_app_loop app acc b ls)"
proof (induction ls arbitrary: acc b)
  case Nil
  show ?case by simp
next
  case (Cons l ls)
  let ?b1 = "(if str_in ''INSTALLED_APPS'' l then True else b)"
  show ?case
  proof (cases "?b1 \<and> startswith (strip l) '']''")
    case True
    then have "add_app_loop app acc b (l # ls)
        = acc @ app_entry app @ (l @ [LF] @ add_app_loop app [] False ls)"
      using add_app_loop_acc [of app "acc @ app_entry app @ l @ [LF]" False ls]
      by (auto simp: Let_def)
    then have "str_in app (add_app_loop app acc b (l # ls))"
      by (simp only: app_entry_contains)
    then show ?thesis ..
  next
    case False
    then have "add_app_loop app acc b (l # ls) = add_app_loop app (acc @ l @ [LF]) ?b1 ls"
      by (auto simp: Let_def)
    with Cons.IH [of "acc @ l @ [LF]" ?b1] show ?thesis by simp
  qed
qed

lemma app_entry_no_CR: "CR \<notin> set app \<Longrightarrow> CR \<notin> set (app_entry app)"
  by (simp add: app_entry_def CR_def LF_def)

lemma add_app_loop_no_CR:
  "CR \<notin> set app \<Longrightarrow> \<forall>l\<in>set ls. CR \<notin> set l \<Longrightarrow> CR \<notin> set acc \<Longrightarrow>
   CR \<notin> set (add_app_loop app acc b ls)"
proof (induction ls arbitrary: acc b)
  case Nil
  then show ?case by simp
next
  case (Cons l ls)
  from Cons.prems have l: "CR \<notin> set l" and ls: "\<forall>l\<in>set ls. CR \<notin> set l" by simp_all
  have a1: "CR \<notin> set (acc @ app_entry app @ l @ [LF])"
    using Cons.prems(1,3) l by (simp add: app_entry_no_CR)
  have a2: "CR \<notin> set (acc @ l @ [LF])"
    using Cons.prems(3) l by simp
  show ?case
    using Cons.IH [OF Cons.prems(1) ls a1] Cons.IH [OF Cons.prems(1) ls a2]
    by (simp add: Let_def)
qed

lemma add_app_already_present_aux:
  "read_text fs p = Inr content \<Longrightarrow> str_in app content \<Longrightarrow>
   add_app_to_settings fs p app = (None, fs)"
  by (simp add: add_app_to_settings_def add_app_content_def)

lemma read_text_InrD:
  "read_text fs p = Inr content \<Longrightarrow> \<exists>t. map_of fs p = Some (File t) \<and> content = universal_newlines t"
  by (auto simp: read_text_def split: option.splits node.splits)

text \<open>
  C4: registration is idempotent across invocations. For a text that does not hold the
  app name, a first run succeeds and writes the file, and a second run on the result
  leaves the file system exactly as the first run left it: either the second run finds
  the name and returns, or nothing was inserted and it writes the same text again. The
  app name is the one \<open>project\<close> passes on (\<open>cli.py\<close>, line 110), the safe name that
  \<open>startapp\<close> has accepted as an identifier on the line before, so it holds no CR.
\<close>

theorem add_app_twice:
  assumes "read_text fs p = Inr content"
    and "\<not> str_in app content"
    and "CR \<notin> set app"
  shows "\<exists>fs1. add_app_to_settings fs p app = (None, fs1)
           \<and> add_app_to_settings fs1 p app = (None, fs1)"
proof -
  let ?new = "add_app_loop app [] False (splitlines content)"
  let ?fs1 = "AList.update p (File ?new) fs"
  from assms(1) obtain t where t: "map_of fs p = Some (File t)"
    using read_text_InrD by blast
  have first: "add_app_to_settings fs p app = (None, ?fs1)"
    using assms(1,2) t
    by (simp add: add_app_to_settings_def add_app_content_def write_text_existing)
  have "CR \<notin> set ?new"
    using assms(3) by (intro add_app_loop_no_CR) (simp_all add: splitlines_no_CR)
  then have rd: "read_text ?fs1 p = Inr ?new"
    by (simp add: read_text_def map_of_update_same universal_newlines_id)
  have "add_app_to_settings ?fs1 p app = (None, ?fs1)"
  proof (cases "str_in app ?new")
    case True
    with rd show ?thesis by (rule add_app_already_present_aux)
  next
    case False
    with add_app_loop_dichotomy [of app "[]" False "splitlines content"]
    have eq: "?new = join_lines (splitlines content)" by simp
    have "splitlines ?new = splitlines content"
      unfolding eq by (rule splitlines_join_splitlines)
    then have "add_app_content ?new app = Some ?new"
      using False by (simp add: add_app_content_def)
    then show ?thesis
      using rd
      by (simp add: add_app_to_settings_def
          write_text_existing [OF map_of_update_same] update_update_same)
  qed
  with first show ?thesis by blast
qed

theorem add_app_twice_witness:
  "read_text [([''proj'', ''settings.py''], File ''INSTALLED_APPS = [\<newline>]\<newline>'')]
     [''proj'', ''settings.py''] = Inr ''INSTALLED_APPS = [\<newline>]\<newline>''
   \<and> \<not> str_in ''blog'' ''INSTALLED_APPS = [\<newline>]\<newline>''
   \<and> CR \<notin> set ''blog''
   \<and> (\<exists>fs1. add_app_to_settings
         [([''proj'', ''settings.py''], File ''INSTALLED_APPS = [\<newline>]\<newline>'')]
         [''proj'', ''settings.py''] ''blog'' = (None, fs1)
       \<and> add_app_to_settings fs1 [''proj'', ''settings.py''] ''blog'' = (None, fs1))"
proof -
  have h1: "read_text [([''proj'', ''settings.py''], File ''INSTALLED_APPS = [\<newline>]\<newline>'')]
     [''proj'', ''settings.py''] = Inr ''INSTALLED_APPS = [\<newline>]\<newline>''"
    by code_simp
  have h2: "\<not> str_in ''blog'' ''INSTALLED_APPS = [\<newline>]\<newline>''"
    by code_simp
  have h3: "CR \<notin> set ''blog''"
    by code_simp
  show ?thesis
    using h1 h2 h3 add_app_twice [OF h1 h2 h3] by simp
qed

text \<open>
  One registration block. The app name does not occur in the text; \<open>before\<close> are the
  lines ahead of the first marker line, \<open>closer\<close> is the first line at or after the
  marker line whose stripped content starts with \<open>]\<close> (\<open>block\<close> are the lines from the
  marker line up to it, none when the marker line is the closer itself), and no line after
  the closer holds the marker. Then the text written is the lines with the quoted app name
  inserted once, immediately before the closer.
\<close>

lemma add_app_one_block:
  assumes "\<not> str_in app content"
    and "splitlines content = before @ block @ closer # after"
    and "\<forall>l\<in>set before. \<not> str_in ''INSTALLED_APPS'' l"
    and "str_in ''INSTALLED_APPS'' (hd (block @ [closer]))"
    and "\<forall>l\<in>set block. \<not> startswith (strip l) '']''"
    and "startswith (strip closer) '']''"
    and "\<forall>l\<in>set after. \<not> str_in ''INSTALLED_APPS'' l"
  shows "add_app_content content app =
           Some (join_lines (before @ block) @ app_entry app @ join_lines (closer # after))"
proof -
  have 1: "add_app_loop app [] False (before @ block @ closer # after)
      = add_app_loop app (join_lines before) False (block @ closer # after)"
    using add_app_loop_skip [OF assms(3), of app "[]"] by simp
  have 2: "add_app_loop app (join_lines before) False (block @ closer # after)
      = join_lines before @ join_lines block @ app_entry app @ closer @ [LF]
          @ add_app_loop app [] False after"
  proof (cases block)
    case Nil
    with assms(4) have "str_in ''INSTALLED_APPS'' closer" by simp
    with assms(6) Nil show ?thesis
      using add_app_loop_acc [of app "join_lines before @ app_entry app @ closer @ [LF]" False after]
      by (simp add: Let_def)
  next
    case (Cons m ms)
    with assms(4,5) have m: "str_in ''INSTALLED_APPS'' m" "\<not> startswith (strip m) '']''"
      and ms: "\<forall>l\<in>set ms. \<not> startswith (strip l) '']''"
      by simp_all
    have "add_app_loop app (join_lines before) False (block @ closer # after)
        = add_app_loop app (join_lines before @ m @ [LF]) True (ms @ closer # after)"
      using m Cons by (simp add: Let_def)
    also have "\<dots> = add_app_loop app (join_lines before @ m @ [LF] @ join_lines ms) True
        (closer # after)"
      using add_app_loop_no_closer [OF ms, of app "join_lines before @ m @ [LF]"] by simp
    also have "\<dots> = join_lines before @ join_lines block @ app_entry app @ closer @ [LF]
          @ add_app_loop app [] False after"
      using assms(6) Cons
        add_app_loop_acc [of app
          "join_lines before @ m @ LF # join_lines ms @ app_entry app @ closer @ [LF]" False after]
      by (simp add: Let_def)
    finally show ?thesis .
  qed
  have 3: "add_app_loop app [] False after = join_lines after"
    using add_app_loop_no_marker [OF assms(7), of app "[]"] by simp
  show ?thesis
    using assms(1) by (simp add: add_app_content_def assms(2) 1 2 3)
qed

lemma add_app_one_block_example:
  "\<not> str_in ''blog'' ''DEBUG = True\<newline>INSTALLED_APPS = [\<newline>    'admin',\<newline>]\<newline>X = []\<newline>''
   \<and> splitlines ''DEBUG = True\<newline>INSTALLED_APPS = [\<newline>    'admin',\<newline>]\<newline>X = []\<newline>''
       = [''DEBUG = True''] @ [''INSTALLED_APPS = ['', ''    'admin',''] @ '']'' # [''X = []'']
   \<and> add_app_content ''DEBUG = True\<newline>INSTALLED_APPS = [\<newline>    'admin',\<newline>]\<newline>X = []\<newline>'' ''blog''
       = Some ''DEBUG = True\<newline>INSTALLED_APPS = [\<newline>    'admin',\<newline>    'blog',\<newline>]\<newline>X = []\<newline>''"
proof -
  have h1: "\<not> str_in ''blog'' ''DEBUG = True\<newline>INSTALLED_APPS = [\<newline>    'admin',\<newline>]\<newline>X = []\<newline>''"
    by code_simp
  have h2: "splitlines ''DEBUG = True\<newline>INSTALLED_APPS = [\<newline>    'admin',\<newline>]\<newline>X = []\<newline>''
       = [''DEBUG = True''] @ [''INSTALLED_APPS = ['', ''    'admin',''] @ '']'' # [''X = []'']"
    by code_simp
  have h3: "\<forall>l\<in>set [''DEBUG = True'']. \<not> str_in ''INSTALLED_APPS'' l"
    by code_simp
  have h4: "str_in ''INSTALLED_APPS'' (hd ([''INSTALLED_APPS = ['', ''    'admin',''] @ ['']'']))"
    by code_simp
  have h5: "\<forall>l\<in>set [''INSTALLED_APPS = ['', ''    'admin','']. \<not> startswith (strip l) '']''"
    by code_simp
  have h6: "startswith (strip '']'') '']''"
    by code_simp
  have h7: "\<forall>l\<in>set [''X = []'']. \<not> str_in ''INSTALLED_APPS'' l"
    by code_simp
  have j: "join_lines ([''DEBUG = True''] @ [''INSTALLED_APPS = ['', ''    'admin','']) @ app_entry ''blog''
        @ join_lines ('']'' # [''X = []''])
      = ''DEBUG = True\<newline>INSTALLED_APPS = [\<newline>    'admin',\<newline>    'blog',\<newline>]\<newline>X = []\<newline>''"
    by code_simp
  show ?thesis
    using h1 h2 add_app_one_block [OF h1 h2 h3 h4 h5 h6 h7]
    unfolding j by simp
qed

text \<open>
  C1: a single run can insert the app name more than once. The flag \<open>in_installed\<close> is
  set again by every line that holds the marker, so each marker line that follows a closer
  opens the block again and the next closer line gets an entry of its own. On the settings
  file below, which does not hold the name \<open>blog\<close> and has the two blocks
  \<open>INSTALLED_APPS = [ ]\<close> and \<open>INSTALLED_APPS += [ ]\<close>, one run of \<open>add_app_to_settings\<close>
  writes the entry \<open>'blog',\<close> before each of the two closers: the file written has the
  entry line twice. The docstring of the function (\<open>Insert app_name into INSTALLED_APPS list
  if not already present\<close>) and the rule of one insertion point are not met on this file.
\<close>

theorem add_app_inserts_twice:
  "read_text
       [([''proj'', ''settings.py''],
         File ''INSTALLED_APPS = [\<newline>]\<newline>INSTALLED_APPS += [\<newline>]\<newline>'')]
       [''proj'', ''settings.py'']
     = Inr ''INSTALLED_APPS = [\<newline>]\<newline>INSTALLED_APPS += [\<newline>]\<newline>''
   \<and> \<not> str_in ''blog'' ''INSTALLED_APPS = [\<newline>]\<newline>INSTALLED_APPS += [\<newline>]\<newline>''
   \<and> add_app_to_settings
         [([''proj'', ''settings.py''],
           File ''INSTALLED_APPS = [\<newline>]\<newline>INSTALLED_APPS += [\<newline>]\<newline>'')]
         [''proj'', ''settings.py''] ''blog''
       = (None,
          [([''proj'', ''settings.py''],
            File ''INSTALLED_APPS = [\<newline>    'blog',\<newline>]\<newline>INSTALLED_APPS += [\<newline>    'blog',\<newline>]\<newline>'')])
   \<and> count_list
         (splitlines ''INSTALLED_APPS = [\<newline>    'blog',\<newline>]\<newline>INSTALLED_APPS += [\<newline>    'blog',\<newline>]\<newline>'')
         ''    'blog','' = 2"
  by code_simp

section \<open>The command: the two refusals\<close>



text \<open>
  C6: when the target directory \<open>cwd / project_name\<close> exists and holds at least one entry,
  the command raises \<open>SystemExit(1)\<close>: the exit status is not 0 and the file system is the
  one the command started from, so the directory keeps its contents and nothing else has
  been created. (Without the preset the command has left already, with the same exit and
  the same file system.)
\<close>

theorem project_directory_not_empty:
  assumes "iterdir fs (joinpath (cwd env) project_name) = Inr entries"
    and "entries \<noteq> []"
  shows "project env fs project_name app_name preset install = (Some (SystemExit 1), fs)
         \<and> exit_status (fst (project env fs project_name app_name preset install)) \<noteq> 0"
proof -
  from assms(1) have "path_exists fs (joinpath (cwd env) project_name)"
    by (auto simp: iterdir_def path_exists_def split: option.splits node.splits)
  with assms have "project env fs project_name app_name preset install = (Some (SystemExit 1), fs)"
    by (simp add: project_def Let_def)
  then show ?thesis
    by (simp add: exit_status_def)
qed

theorem project_directory_not_empty_witness:
  "iterdir [([''pkg'', ''presets''], Dir), ([''pkg'', ''presets'', ''base''], Dir), ([''home''], Dir),
            ([''home'', ''My-Blog''], Dir), ([''home'', ''My-Blog'', ''notes.txt''], File ''keep'')]
        (joinpath
           (cwd \<lparr>PRESETS_DIR = [''pkg'', ''presets''], cwd = [''home''],
              django_admin_startproject = (\<lambda>fs d n. NotStarted),
              manage_py_startapp = (\<lambda>fs d n. NotStarted),
              pip_install = (\<lambda>fs d. NotStarted),
              get_random_secret_key = ''k''\<rparr>)
           ''My-Blog'')
      = Inr [[''home'', ''My-Blog'', ''notes.txt'']]
   \<and> [[''home'', ''My-Blog'', ''notes.txt'']] \<noteq> ([] :: path list)
   \<and> project \<lparr>PRESETS_DIR = [''pkg'', ''presets''], cwd = [''home''],
              django_admin_startproject = (\<lambda>fs d n. NotStarted),
              manage_py_startapp = (\<lambda>fs d n. NotStarted),
              pip_install = (\<lambda>fs d. NotStarted),
              get_random_secret_key = ''k''\<rparr>
         [([''pkg'', ''presets''], Dir), ([''pkg'', ''presets'', ''base''], Dir), ([''home''], Dir),
          ([''home'', ''My-Blog''], Dir), ([''home'', ''My-Blog'', ''notes.txt''], File ''keep'')]
         ''My-Blog'' ''blog'' ''base'' False
       = (Some (SystemExit 1),
          [([''pkg'', ''presets''], Dir), ([''pkg'', ''presets'', ''base''], Dir), ([''home''], Dir),
           ([''home'', ''My-Blog''], Dir), ([''home'', ''My-Blog'', ''notes.txt''], File ''keep'')])"
proof -
  let ?env = "\<lparr>PRESETS_DIR = [''pkg'', ''presets''], cwd = [''home''],
              django_admin_startproject = (\<lambda>fs d n. NotStarted),
              manage_py_startapp = (\<lambda>fs d n. NotStarted),
              pip_install = (\<lambda>fs d. NotStarted),
              get_random_secret_key = ''k''\<rparr>"
  let ?fs = "[([''pkg'', ''presets''], Dir), ([''pkg'', ''presets'', ''base''], Dir), ([''home''], Dir),
            ([''home'', ''My-Blog''], Dir), ([''home'', ''My-Blog'', ''notes.txt''], File ''keep'')]"
  have h1: "iterdir ?fs (joinpath (cwd ?env) ''My-Blog'') = Inr [[''home'', ''My-Blog'', ''notes.txt'']]"
    by (simp add: iterdir_def joinpath_def)
  have h2: "[[''home'', ''My-Blog'', ''notes.txt'']] \<noteq> ([] :: path list)"
    by simp
  show ?thesis
    using h1 project_directory_not_empty [OF h1 h2, of "''blog''" "''base''" False] by simp
qed

section \<open>The command: the environment file\<close>











section \<open>The reference fixer on a text cut in pieces\<close>

lemma lazy_to_quote_append:
  "lazy_to_quote s = Some r \<Longrightarrow> lazy_to_quote (s @ y) = Some (r @ y)"
  by (induction s) (auto split: if_splits)

lemma dropWhile_append_Cons:
  assumes "dropWhile P xs = c # cs"
  shows "dropWhile P (xs @ ys) = c # cs @ ys"
proof -
  from assms have "c \<in> set xs"
    by (metis list.set_intros(1) set_dropWhileD)
  moreover from assms have "\<not> P c"
    by (metis hd_dropWhile list.sel(1) list.distinct(1))
  ultimately have "dropWhile P (xs @ ys) = dropWhile P xs @ ys"
    by (rule dropWhile_append1)
  with assms show ?thesis
    by simp
qed

lemma match_assignment_append:
  assumes "match_assignment name s = Some r"
  shows "match_assignment name (s @ y) = Some (r @ y)"
proof -
  from assms have p: "prefix name s"
    by (auto simp: match_assignment_def split: if_splits)
  from assms p obtain s1 where
    s1: "dropWhile isspace (drop (length name) s) = CHR ''='' # s1"
    by (auto simp: match_assignment_def split: if_splits list.splits)
  from assms p s1 obtain q s2 where
    s2: "dropWhile isspace s1 = q # s2" and q: "is_quote q" and r: "lazy_to_quote s2 = Some r"
    by (auto simp: match_assignment_def split: if_splits list.splits)
  from p have len: "length name \<le> length s"
    by (rule prefix_length_le)
  have p': "prefix name (s @ y)"
    using p by (rule prefix_prefix)
  have d: "drop (length name) (s @ y) = drop (length name) s @ y"
    using len by simp
  have 1: "dropWhile isspace (drop (length name) (s @ y)) = CHR ''='' # s1 @ y"
    unfolding d using s1 by (rule dropWhile_append_Cons)
  have 2: "dropWhile isspace (s1 @ y) = q # s2 @ y"
    using s2 by (rule dropWhile_append_Cons)
  have 3: "lazy_to_quote (s2 @ y) = Some (r @ y)"
    using r by (rule lazy_to_quote_append)
  show ?thesis
    unfolding match_assignment_def
    by (simp only: p' 1 2 3 q if_True list.case refl)
qed

lemma match_assignment_Nil [simp]: "match_assignment name [] = None"
  by (simp add: match_assignment_def)

lemma re_sub_match:
  assumes "match_assignment name a = Some []"
  shows "re_sub name repl (a @ y) = repl @ re_sub name repl y"
proof -
  from assms obtain c cs where a: "a = c # cs"
    by (cases a) simp_all
  from assms have "match_assignment name (a @ y) = Some y"
    using match_assignment_append [of name a "[]" y] by simp
  then show ?thesis
    by (simp add: a)
qed

lemma no_assignment_match_None:
  assumes na: "no_assignment name u" and s: "s \<noteq> []" "suffix s u"
  shows "match_assignment name (s @ y) = None"
proof (cases "prefix name (s @ y)")
  case False
  then show ?thesis
    by (simp add: match_assignment_def)
next
  case True
  from na s have n1: "\<not> prefix s name" and n2: "\<not> assignment_start name s"
    by (auto simp: no_assignment_def list_all_iff in_set_suffixes)
  from True have "prefix name s \<or> (\<exists>us. name = s @ us \<and> prefix us y)"
    by (simp only: prefix_append)
  with n1 have p: "prefix name s"
    by auto
  with n2 obtain c cs where
    d: "dropWhile isspace (drop (length name) s) = c # cs" and c: "c \<noteq> CHR ''=''"
    by (auto simp: assignment_start_def split: list.splits)
  from p have "length name \<le> length s"
    by (rule prefix_length_le)
  then have "drop (length name) (s @ y) = drop (length name) s @ y"
    by simp
  then have "dropWhile isspace (drop (length name) (s @ y)) = c # cs @ y"
    using dropWhile_append_Cons [OF d] by simp
  then show ?thesis
    unfolding match_assignment_def
    by (simp only: c True if_True if_False list.case)
qed

lemma re_sub_suffix_skip:
  assumes "no_assignment name u"
  shows "suffix s u \<Longrightarrow> re_sub name repl (s @ y) = s @ re_sub name repl y"
proof (induction s)
  case Nil
  show ?case by simp
next
  case (Cons c cs)
  have "match_assignment name ((c # cs) @ y) = None"
    using assms _ Cons.prems by (rule no_assignment_match_None) simp
  moreover from Cons.prems have "suffix cs u"
    by (rule suffix_ConsD)
  ultimately show ?case
    using Cons.IH by simp
qed

lemma re_sub_skip:
  "no_assignment name u \<Longrightarrow> re_sub name repl (u @ y) = u @ re_sub name repl y"
  by (rule re_sub_suffix_skip [OF _ suffix_order.refl])


lemma render_simps [simp]:
  "render [] = []"
  "render (p # ps) = piece_text p @ render ps"
  "render (ps @ qs) = render ps @ render qs"
  by (simp_all add: render_def)

lemma re_sub_root_pieces:
  "list_all piece_ok ps \<Longrightarrow>
   re_sub ''ROOT_URLCONF'' repl (render ps)
     = render (map (\<lambda>p. case p of Root a \<Rightarrow> Root repl | _ \<Rightarrow> p) ps)"
proof (induction ps)
  case Nil
  show ?case by simp
next
  case (Cons p ps)
  then have ok: "piece_ok p" and IH: "re_sub ''ROOT_URLCONF'' repl (render ps)
     = render (map (\<lambda>p. case p of Root a \<Rightarrow> Root repl | _ \<Rightarrow> p) ps)"
    by simp_all
  show ?case
  proof (cases p)
    case (Plain u)
    with ok have "no_assignment ''ROOT_URLCONF'' u" by simp
    then have "re_sub ''ROOT_URLCONF'' repl (u @ render ps) = u @ re_sub ''ROOT_URLCONF'' repl (render ps)"
      by (rule re_sub_skip)
    with Plain IH show ?thesis by simp
  next
    case (Root a)
    with ok have "match_assignment ''ROOT_URLCONF'' a = Some []" by simp
    then have "re_sub ''ROOT_URLCONF'' repl (a @ render ps) = repl @ re_sub ''ROOT_URLCONF'' repl (render ps)"
      by (rule re_sub_match)
    with Root IH show ?thesis by simp
  next
    case (Wsgi b)
    with ok have "no_assignment ''ROOT_URLCONF'' b" by simp
    then have "re_sub ''ROOT_URLCONF'' repl (b @ render ps) = b @ re_sub ''ROOT_URLCONF'' repl (render ps)"
      by (rule re_sub_skip)
    with Wsgi IH show ?thesis by simp
  qed
qed

lemma re_sub_wsgi_pieces:
  "list_all (\<lambda>p. case p of
        Plain u \<Rightarrow> no_assignment ''WSGI_APPLICATION'' u
      | Root r \<Rightarrow> no_assignment ''WSGI_APPLICATION'' r
      | Wsgi b \<Rightarrow> match_assignment ''WSGI_APPLICATION'' b = Some []) ps \<Longrightarrow>
   re_sub ''WSGI_APPLICATION'' repl (render ps)
     = render (map (\<lambda>p. case p of Wsgi b \<Rightarrow> Wsgi repl | _ \<Rightarrow> p) ps)"
proof (induction ps)
  case Nil
  show ?case by simp
next
  case (Cons p ps)
  then have IH: "re_sub ''WSGI_APPLICATION'' repl (render ps)
     = render (map (\<lambda>p. case p of Wsgi b \<Rightarrow> Wsgi repl | _ \<Rightarrow> p) ps)"
    by simp
  show ?case
  proof (cases p)
    case (Plain u)
    with Cons.prems have "no_assignment ''WSGI_APPLICATION'' u" by simp
    then have "re_sub ''WSGI_APPLICATION'' repl (u @ render ps)
        = u @ re_sub ''WSGI_APPLICATION'' repl (render ps)"
      by (rule re_sub_skip)
    with Plain IH show ?thesis by simp
  next
    case (Root r)
    with Cons.prems have "no_assignment ''WSGI_APPLICATION'' r" by simp
    then have "re_sub ''WSGI_APPLICATION'' repl (r @ render ps)
        = r @ re_sub ''WSGI_APPLICATION'' repl (render ps)"
      by (rule re_sub_skip)
    with Root IH show ?thesis by simp
  next
    case (Wsgi b)
    with Cons.prems have "match_assignment ''WSGI_APPLICATION'' b = Some []" by simp
    then have "re_sub ''WSGI_APPLICATION'' repl (b @ render ps)
        = repl @ re_sub ''WSGI_APPLICATION'' repl (render ps)"
      by (rule re_sub_match)
    with Wsgi IH show ?thesis by simp
  qed
qed


lemma no_assignment_between:
  assumes name: "name \<noteq> []"
    and A: "hd name \<notin> set A"
    and PB: "\<forall>c\<in>set (P @ B). \<not> isspace c \<and> c \<noteq> CHR ''=''"
    and B: "B \<noteq> []" "last B \<notin> set name"
  shows "no_assignment name (A @ P @ B)"
  unfolding no_assignment_def list_all_iff
proof (intro ballI)
  fix s
  assume "s \<in> set (suffixes (A @ P @ B))"
  then have suf: "suffix s (A @ P @ B)"
    by (simp only: in_set_suffixes)
  show "s = [] \<or> (\<not> prefix s name \<and> \<not> assignment_start name s)"
  proof (cases "s = []")
    case True
    then show ?thesis ..
  next
    case False
    from suf obtain pre where pre: "A @ P @ B = pre @ s"
      by (auto simp: suffix_def)
    from pre False B(1) have last_s: "last s = last B"
      by (metis append_assoc last_appendR)
    from last_s B(2) False have ls: "last s \<notin> set name"
      by simp
    have 1: "\<not> prefix s name"
    proof
      assume "prefix s name"
      then have "set s \<subseteq> set name"
        by (rule set_mono_prefix)
      with False have "last s \<in> set name"
        by (meson last_in_set subsetD)
      with ls show False ..
    qed
    have 2: "\<not> assignment_start name s"
    proof
      assume as: "assignment_start name s"
      then have p: "prefix name s"
        by (simp add: assignment_start_def)
      then obtain r where r: "s = name @ r"
        by (auto simp: prefix_def)
      with name False have hd_s: "hd s = hd name"
        by simp
      from suf have "suffix s (P @ B) \<or> (\<exists>a'. s = a' @ P @ B \<and> suffix a' A)"
        by (simp only: suffix_append) 
      then have sPB: "suffix s (P @ B)"
      proof
        assume "suffix s (P @ B)"
        then show ?thesis .
      next
        assume "\<exists>a'. s = a' @ P @ B \<and> suffix a' A"
        then obtain a' where a': "s = a' @ P @ B" "suffix a' A"
          by blast
        show ?thesis
        proof (cases "a' = []")
          case True
          with a' show ?thesis by simp
        next
          case False
          with a'(1) have "hd s = hd a'"
            by simp
          with False have "hd s \<in> set a'"
            by simp
          with a'(2) have "hd s \<in> set A"
            by (meson set_mono_suffix subsetD)
          with hd_s A show ?thesis
            by simp
        qed
      qed
      have "r \<noteq> []"
      proof
        assume "r = []"
        with r have "s = name" by simp
        with name have "last s \<in> set name" by simp
        with ls show False ..
      qed
      then obtain c cs where c: "r = c # cs"
        by (cases r) simp_all
      from r have "suffix r s"
        by (simp add: suffix_def)
      from this sPB have "suffix r (P @ B)"
        by (rule suffix_order.trans)
      then have "set r \<subseteq> set (P @ B)"
        by (rule set_mono_suffix)
      with c PB have cc: "\<not> isspace c" "c \<noteq> CHR ''=''"
        by auto
      from r c have "drop (length name) s = c # cs"
        by simp
      with cc have "\<not> assignment_start name s"
        by (simp add: assignment_start_def)
      then show False using as ..
    qed
    from 1 2 show ?thesis
      by simp
  qed
qed

lemma safe_name_okD:
  assumes "safe_name_ok n" and "c \<in> set n"
  shows "\<not> isspace c" "c \<noteq> CHR ''=''" "\<not> is_quote c" "c \<noteq> CHR 0x5C"
  using assms by (simp_all add: safe_name_ok_def list_all_iff)

lemma isspace_simps [simp]:
  "isspace CHR '' ''" "isspace LF" "isspace CR"
  by (simp_all add: isspace_def LF_def CR_def)

lemma lazy_to_quote_name:
  assumes "safe_name_ok n"
  shows "lazy_to_quote (n @ r) = lazy_to_quote r"
  using assms
proof (induction n)
  case Nil
  show ?case by simp
next
  case (Cons c cs)
  then have "\<not> is_quote c" "\<not> isspace c" and cs: "safe_name_ok cs"
    by (simp_all add: safe_name_ok_def)
  then have "\<not> is_quote c" "c \<noteq> LF"
    by auto
  with Cons.IH [OF cs] show ?case
    by simp
qed

lemma match_root_urlconf_repl:
  assumes "safe_name_ok n"
  shows "match_assignment ''ROOT_URLCONF'' (root_urlconf_repl n) = Some []"
proof -
  have "lazy_to_quote (n @ ''.urls'' @ [CHR 0x22]) = Some []"
    unfolding lazy_to_quote_name [OF assms] by (simp add: is_quote_def LF_def)
  then show ?thesis
    by (simp add: match_assignment_def root_urlconf_repl_def is_quote_def isspace_def)
qed

lemma match_wsgi_application_repl:
  assumes "safe_name_ok n"
  shows "match_assignment ''WSGI_APPLICATION'' (wsgi_application_repl n) = Some []"
proof -
  have "lazy_to_quote (n @ ''.wsgi.application'' @ [CHR 0x22]) = Some []"
    unfolding lazy_to_quote_name [OF assms] by (simp add: is_quote_def LF_def)
  then show ?thesis
    by (simp add: match_assignment_def wsgi_application_repl_def is_quote_def isspace_def)
qed

lemma no_wsgi_in_root_urlconf_repl:
  assumes "safe_name_ok n"
  shows "no_assignment ''WSGI_APPLICATION'' (root_urlconf_repl n)"
proof -
  have "no_assignment ''WSGI_APPLICATION''
      ((''ROOT_URLCONF = '' @ [CHR 0x22]) @ n @ (''.urls'' @ [CHR 0x22]))"
  proof (rule no_assignment_between)
    show "\<forall>c\<in>set (n @ ''.urls'' @ [CHR 0x22]). \<not> isspace c \<and> c \<noteq> CHR ''=''"
      using safe_name_okD [OF assms] by (auto simp: isspace_def)
  qed simp_all
  then show ?thesis
    by (simp add: root_urlconf_repl_def)
qed

lemma no_root_in_wsgi_application_repl:
  assumes "safe_name_ok n"
  shows "no_assignment ''ROOT_URLCONF'' (wsgi_application_repl n)"
proof -
  have "no_assignment ''ROOT_URLCONF''
      ((''WSGI_APPLICATION = '' @ [CHR 0x22]) @ n @ (''.wsgi.application'' @ [CHR 0x22]))"
  proof (rule no_assignment_between)
    show "\<forall>c\<in>set (n @ ''.wsgi.application'' @ [CHR 0x22]). \<not> isspace c \<and> c \<noteq> CHR ''=''"
      using safe_name_okD [OF assms] by (auto simp: isspace_def)
  qed simp_all
  then show ?thesis
    by (simp add: wsgi_application_repl_def)
qed

lemma re_template_repl:
  assumes "safe_name_ok n"
  shows "re_template (root_urlconf_repl n) = Inr (root_urlconf_repl n)"
    and "re_template (wsgi_application_repl n) = Inr (wsgi_application_repl n)"
  using safe_name_okD(4) [OF assms]
  by (auto simp: re_template_def root_urlconf_repl_def wsgi_application_repl_def)

lemma repl_no_CR:
  assumes "safe_name_ok n"
  shows "CR \<notin> set (root_urlconf_repl n)" and "CR \<notin> set (wsgi_application_repl n)"
proof -
  have "CR \<notin> set n"
    using safe_name_okD(1) [OF assms, of CR] by auto
  then show "CR \<notin> set (root_urlconf_repl n)" and "CR \<notin> set (wsgi_application_repl n)"
    by (simp_all add: root_urlconf_repl_def wsgi_application_repl_def CR_def)
qed

lemma piece_ok_fixed:
  assumes "safe_name_ok n" and "piece_ok p"
  shows "piece_ok (fixed n p)"
  using assms
  by (cases p)
    (simp_all add: match_root_urlconf_repl match_wsgi_application_repl
      no_root_in_wsgi_application_repl)

lemma fixed_fixed [simp]: "fixed n (fixed n p) = fixed n p"
  by (cases p) simp_all

lemma render_fixed_no_CR:
  assumes "safe_name_ok n"
  shows "CR \<notin> set (render ps) \<Longrightarrow> CR \<notin> set (render (map (fixed n) ps))"
proof (induction ps)
  case Nil
  show ?case by simp
next
  case (Cons p ps)
  then show ?case
    using repl_no_CR [OF assms] by (cases p) simp_all
qed

lemma fix_references_text_pieces:
  assumes n: "safe_name_ok n" and ok: "list_all piece_ok ps"
  shows "fix_references_text (render ps) n = Inr (render (map (fixed n) ps))"
proof -
  let ?f1 = "\<lambda>p. case p of Root a \<Rightarrow> Root (root_urlconf_repl n) | _ \<Rightarrow> p"
  let ?f2 = "\<lambda>p. case p of Wsgi b \<Rightarrow> Wsgi (wsgi_application_repl n) | _ \<Rightarrow> p"
  have 1: "re_sub ''ROOT_URLCONF'' (root_urlconf_repl n) (render ps) = render (map ?f1 ps)"
    using ok by (rule re_sub_root_pieces)
  have "list_all (\<lambda>p. case p of
        Plain u \<Rightarrow> no_assignment ''WSGI_APPLICATION'' u
      | Root r \<Rightarrow> no_assignment ''WSGI_APPLICATION'' r
      | Wsgi b \<Rightarrow> match_assignment ''WSGI_APPLICATION'' b = Some []) (map ?f1 ps)"
    using ok no_wsgi_in_root_urlconf_repl [OF n]
    by (auto simp: list_all_iff split: piece.splits)
  then have 2: "re_sub ''WSGI_APPLICATION'' (wsgi_application_repl n) (render (map ?f1 ps))
      = render (map ?f2 (map ?f1 ps))"
    by (rule re_sub_wsgi_pieces)
  have 3: "map ?f2 (map ?f1 ps) = map (fixed n) ps"
    by (induction ps) (auto split: piece.splits)
  show ?thesis
    by (simp add: fix_references_text_def re_template_repl [OF n] 1 2 3 del: map_map)
qed

lemma fix_project_references_pieces:
  assumes "safe_name_ok n" and "list_all piece_ok ps"
    and rd: "read_text fs p = Inr (render ps)"
  shows "fix_project_references fs p n
           = (None, AList.update p (File (render (map (fixed n) ps))) fs)"
proof -
  from rd obtain t where "map_of fs p = Some (File t)"
    using read_text_InrD by blast
  then show ?thesis
    using rd fix_references_text_pieces [OF assms(1,2)]
    by (simp add: fix_project_references_def write_text_existing)
qed

text \<open>
  C2, amended: \<open>re.sub\<close> is called without \<open>count\<close>, so every occurrence of a pattern is
  replaced, the first and each later one. For a settings text cut in pieces and a safe
  project name, the file written is the text with every \<open>Root\<close> piece replaced by
  \<open>ROOT_URLCONF = "name.urls"\<close>, every \<open>Wsgi\<close> piece by
  \<open>WSGI_APPLICATION = "name.wsgi.application"\<close>, and the plain stretches as they were. (The
  counterexample: of two assignments to \<open>ROOT_URLCONF\<close>, the second is replaced as well.)
\<close>

theorem fixer_replaces_every_assignment:
  assumes "safe_name_ok safe_project_name"
    and "list_all piece_ok ps"
    and "read_text fs settings_path = Inr (render ps)"
  shows "fix_project_references fs settings_path safe_project_name
           = (None, AList.update settings_path
                (File (render (map (fixed safe_project_name) ps))) fs)"
  using assms by (rule fix_project_references_pieces)

theorem fixer_replaces_every_assignment_witness:
  "safe_name_ok ''proj''
   \<and> list_all piece_ok
     [Plain ''DEBUG = True\<newline># the ROOT_URLCONF of the project\<newline>'',
      Root (''ROOT_URLCONF = 'old.urls'' @ [CHR 0x27]),
      Plain ''\<newline>'',
      Wsgi (''WSGI_APPLICATION = 'old.wsgi.application'' @ [CHR 0x27]),
      Plain ''\<newline>\<newline>ROOT_URLCONF += '.v2'\<newline>'',
      Root (''ROOT_URLCONF = 'other.urls'' @ [CHR 0x27]),
      Plain ''\<newline>'']
   \<and> read_text
       [([''proj'', ''proj'', ''settings.py''], File ''DEBUG = True\<newline># the ROOT_URLCONF of the project\<newline>ROOT_URLCONF = 'old.urls'\<newline>WSGI_APPLICATION = 'old.wsgi.application'\<newline>\<newline>ROOT_URLCONF += '.v2'\<newline>ROOT_URLCONF = 'other.urls'\<newline>'')]
       [''proj'', ''proj'', ''settings.py'']
     = Inr (render
     [Plain ''DEBUG = True\<newline># the ROOT_URLCONF of the project\<newline>'',
      Root (''ROOT_URLCONF = 'old.urls'' @ [CHR 0x27]),
      Plain ''\<newline>'',
      Wsgi (''WSGI_APPLICATION = 'old.wsgi.application'' @ [CHR 0x27]),
      Plain ''\<newline>\<newline>ROOT_URLCONF += '.v2'\<newline>'',
      Root (''ROOT_URLCONF = 'other.urls'' @ [CHR 0x27]),
      Plain ''\<newline>''])
   \<and> fix_project_references
       [([''proj'', ''proj'', ''settings.py''], File ''DEBUG = True\<newline># the ROOT_URLCONF of the project\<newline>ROOT_URLCONF = 'old.urls'\<newline>WSGI_APPLICATION = 'old.wsgi.application'\<newline>\<newline>ROOT_URLCONF += '.v2'\<newline>ROOT_URLCONF = 'other.urls'\<newline>'')]
       [''proj'', ''proj'', ''settings.py''] ''proj''
     = (None,
        [([''proj'', ''proj'', ''settings.py''], File (''DEBUG = True\<newline># the ROOT_URLCONF of the project\<newline>ROOT_URLCONF = '' @ [CHR 0x22] @ ''proj.urls'' @ [CHR 0x22] @ ''\<newline>WSGI_APPLICATION = '' @ [CHR 0x22] @ ''proj.wsgi.application'' @ [CHR 0x22] @ ''\<newline>\<newline>ROOT_URLCONF += '.v2'\<newline>ROOT_URLCONF = '' @ [CHR 0x22] @ ''proj.urls'' @ [CHR 0x22] @ ''\<newline>''))])"
proof -
  let ?ps = "[Plain ''DEBUG = True\<newline># the ROOT_URLCONF of the project\<newline>'',
      Root (''ROOT_URLCONF = 'old.urls'' @ [CHR 0x27]),
      Plain ''\<newline>'',
      Wsgi (''WSGI_APPLICATION = 'old.wsgi.application'' @ [CHR 0x27]),
      Plain ''\<newline>\<newline>ROOT_URLCONF += '.v2'\<newline>'',
      Root (''ROOT_URLCONF = 'other.urls'' @ [CHR 0x27]),
      Plain ''\<newline>'']"
  let ?fs = "[([''proj'', ''proj'', ''settings.py''], File ''DEBUG = True\<newline># the ROOT_URLCONF of the project\<newline>ROOT_URLCONF = 'old.urls'\<newline>WSGI_APPLICATION = 'old.wsgi.application'\<newline>\<newline>ROOT_URLCONF += '.v2'\<newline>ROOT_URLCONF = 'other.urls'\<newline>'')]"
  have h1: "safe_name_ok ''proj''"
    by code_simp
  have h2: "list_all piece_ok ?ps"
    by code_simp
  have h3: "read_text ?fs [''proj'', ''proj'', ''settings.py''] = Inr (render ?ps)"
    by code_simp
  have r: "render (map (fixed ''proj'') ?ps) = (''DEBUG = True\<newline># the ROOT_URLCONF of the project\<newline>ROOT_URLCONF = '' @ [CHR 0x22] @ ''proj.urls'' @ [CHR 0x22] @ ''\<newline>WSGI_APPLICATION = '' @ [CHR 0x22] @ ''proj.wsgi.application'' @ [CHR 0x22] @ ''\<newline>\<newline>ROOT_URLCONF += '.v2'\<newline>ROOT_URLCONF = '' @ [CHR 0x22] @ ''proj.urls'' @ [CHR 0x22] @ ''\<newline>'')"
    by code_simp
  show ?thesis
    using h1 h2 h3 fixer_replaces_every_assignment [OF h1 h2 h3]
    unfolding r by simp
qed

theorem fixer_first_match_only_counterexample:
  "fix_project_references
       [([''proj'', ''proj'', ''settings.py''], File ''ROOT_URLCONF = 'a.urls'\<newline>ROOT_URLCONF = 'b.urls'\<newline>'')]
       [''proj'', ''proj'', ''settings.py''] ''proj''
     = (None,
        [([''proj'', ''proj'', ''settings.py''], File (''ROOT_URLCONF = '' @ [CHR 0x22] @ ''proj.urls'' @ [CHR 0x22] @ ''\<newline>ROOT_URLCONF = '' @ [CHR 0x22] @ ''proj.urls'' @ [CHR 0x22] @ ''\<newline>''))])
   \<and> \<not> str_in (''ROOT_URLCONF = 'b.urls'' @ [CHR 0x27])
         (''ROOT_URLCONF = '' @ [CHR 0x22] @ ''proj.urls'' @ [CHR 0x22] @ ''\<newline>ROOT_URLCONF = '' @ [CHR 0x22] @ ''proj.urls'' @ [CHR 0x22] @ ''\<newline>'')"
  by code_simp

text \<open>
  C3, amended: for a settings text cut in pieces, one of them an assignment to
  \<open>ROOT_URLCONF\<close> with any value, and a safe project name, the file written has
  \<open>ROOT_URLCONF = "name.urls"\<close> at the place of that assignment, and so contains it. (The
  counterexample: on a line where \<open>WSGI_APPLICATION = '\<close>, its quote not closed, comes before
  the assignment to \<open>ROOT_URLCONF\<close>, the second substitution takes the text up to the first
  quote of the new assignment, and no assignment to \<open>ROOT_URLCONF\<close> is left.)
\<close>

theorem fixer_sets_root_urlconf:
  assumes "safe_name_ok safe_project_name"
    and "list_all piece_ok (before @ Root a # after)"
    and "read_text fs settings_path = Inr (render (before @ Root a # after))"
  shows "fix_project_references fs settings_path safe_project_name
           = (None, AList.update settings_path
                (File (render (map (fixed safe_project_name) before)
                       @ ''ROOT_URLCONF = '' @ [CHR 0x22] @ safe_project_name @ ''.urls'' @ [CHR 0x22]
                       @ render (map (fixed safe_project_name) after))) fs)
         \<and> str_in (''ROOT_URLCONF = '' @ [CHR 0x22] @ safe_project_name @ ''.urls'' @ [CHR 0x22])
               (render (map (fixed safe_project_name) before)
                  @ ''ROOT_URLCONF = '' @ [CHR 0x22] @ safe_project_name @ ''.urls'' @ [CHR 0x22]
                  @ render (map (fixed safe_project_name) after))"
proof
  have "render (map (fixed safe_project_name) (before @ Root a # after))
      = render (map (fixed safe_project_name) before)
          @ ''ROOT_URLCONF = '' @ [CHR 0x22] @ safe_project_name @ ''.urls'' @ [CHR 0x22]
          @ render (map (fixed safe_project_name) after)"
    by (simp add: root_urlconf_repl_def)
  with fix_project_references_pieces [OF assms]
  show "fix_project_references fs settings_path safe_project_name
           = (None, AList.update settings_path
                (File (render (map (fixed safe_project_name) before)
                       @ ''ROOT_URLCONF = '' @ [CHR 0x22] @ safe_project_name @ ''.urls'' @ [CHR 0x22]
                       @ render (map (fixed safe_project_name) after))) fs)"
    by simp
  have "sublist (''ROOT_URLCONF = '' @ [CHR 0x22] @ safe_project_name @ ''.urls'' @ [CHR 0x22])
      (render (map (fixed safe_project_name) before)
        @ (''ROOT_URLCONF = '' @ [CHR 0x22] @ safe_project_name @ ''.urls'' @ [CHR 0x22])
        @ render (map (fixed safe_project_name) after))"
    by (rule sublist_appendI)
  then show "str_in (''ROOT_URLCONF = '' @ [CHR 0x22] @ safe_project_name @ ''.urls'' @ [CHR 0x22])
               (render (map (fixed safe_project_name) before)
                  @ ''ROOT_URLCONF = '' @ [CHR 0x22] @ safe_project_name @ ''.urls'' @ [CHR 0x22]
                  @ render (map (fixed safe_project_name) after))"
    by (simp add: str_in_def)
qed

theorem fixer_sets_root_urlconf_witness:
  "str_replace ''-'' ''_'' ''My-Blog'' = ''My_Blog''
   \<and> safe_name_ok (str_replace ''-'' ''_'' ''My-Blog'')
   \<and> list_all piece_ok
       ([Plain ''DEBUG = True\<newline>''] @ Root (''ROOT_URLCONF = '' @ [CHR 0x22] @ ''old.urls'' @ [CHR 0x22]) #
        [Plain ''\<newline>'',
      Wsgi (''WSGI_APPLICATION = '' @ [CHR 0x22] @ ''old.wsgi.application'' @ [CHR 0x22]),
      Plain ''\<newline>''])
   \<and> read_text
       [([''proj'', ''proj'', ''settings.py''], File (''DEBUG = True\<newline>ROOT_URLCONF = '' @ [CHR 0x22] @ ''old.urls'' @ [CHR 0x22] @ ''\<newline>WSGI_APPLICATION = '' @ [CHR 0x22] @ ''old.wsgi.application'' @ [CHR 0x22] @ ''\<newline>''))]
       [''proj'', ''proj'', ''settings.py'']
     = Inr (render
       ([Plain ''DEBUG = True\<newline>''] @ Root (''ROOT_URLCONF = '' @ [CHR 0x22] @ ''old.urls'' @ [CHR 0x22]) #
        [Plain ''\<newline>'',
      Wsgi (''WSGI_APPLICATION = '' @ [CHR 0x22] @ ''old.wsgi.application'' @ [CHR 0x22]),
      Plain ''\<newline>'']))
   \<and> fix_project_references
       [([''proj'', ''proj'', ''settings.py''], File (''DEBUG = True\<newline>ROOT_URLCONF = '' @ [CHR 0x22] @ ''old.urls'' @ [CHR 0x22] @ ''\<newline>WSGI_APPLICATION = '' @ [CHR 0x22] @ ''old.wsgi.application'' @ [CHR 0x22] @ ''\<newline>''))]
       [''proj'', ''proj'', ''settings.py''] (str_replace ''-'' ''_'' ''My-Blog'')
     = (None,
        [([''proj'', ''proj'', ''settings.py''], File (''DEBUG = True\<newline>ROOT_URLCONF = '' @ [CHR 0x22] @ ''My_Blog.urls'' @ [CHR 0x22] @ ''\<newline>WSGI_APPLICATION = '' @ [CHR 0x22] @ ''My_Blog.wsgi.application'' @ [CHR 0x22] @ ''\<newline>''))])
   \<and> str_in (''ROOT_URLCONF = '' @ [CHR 0x22] @ ''My_Blog.urls'' @ [CHR 0x22])
       (''DEBUG = True\<newline>ROOT_URLCONF = '' @ [CHR 0x22] @ ''My_Blog.urls'' @ [CHR 0x22] @ ''\<newline>WSGI_APPLICATION = '' @ [CHR 0x22] @ ''My_Blog.wsgi.application'' @ [CHR 0x22] @ ''\<newline>'')"
proof -
  let ?before = "[Plain ''DEBUG = True\<newline>'']"
  let ?after = "[Plain ''\<newline>'',
      Wsgi (''WSGI_APPLICATION = '' @ [CHR 0x22] @ ''old.wsgi.application'' @ [CHR 0x22]),
      Plain ''\<newline>'']"
  let ?a = "(''ROOT_URLCONF = '' @ [CHR 0x22] @ ''old.urls'' @ [CHR 0x22])"
  let ?fs = "[([''proj'', ''proj'', ''settings.py''], File (''DEBUG = True\<newline>ROOT_URLCONF = '' @ [CHR 0x22] @ ''old.urls'' @ [CHR 0x22] @ ''\<newline>WSGI_APPLICATION = '' @ [CHR 0x22] @ ''old.wsgi.application'' @ [CHR 0x22] @ ''\<newline>''))]"
  have n: "str_replace ''-'' ''_'' ''My-Blog'' = ''My_Blog''"
    by code_simp
  have h1: "safe_name_ok ''My_Blog''"
    by code_simp
  have h2: "list_all piece_ok (?before @ Root ?a # ?after)"
    by code_simp
  have h3: "read_text ?fs [''proj'', ''proj'', ''settings.py''] = Inr (render (?before @ Root ?a # ?after))"
    by code_simp
  have r: "render (map (fixed ''My_Blog'') ?before)
        @ ''ROOT_URLCONF = '' @ [CHR 0x22] @ ''My_Blog'' @ ''.urls'' @ [CHR 0x22]
        @ render (map (fixed ''My_Blog'') ?after)
      = (''DEBUG = True\<newline>ROOT_URLCONF = '' @ [CHR 0x22] @ ''My_Blog.urls'' @ [CHR 0x22] @ ''\<newline>WSGI_APPLICATION = '' @ [CHR 0x22] @ ''My_Blog.wsgi.application'' @ [CHR 0x22] @ ''\<newline>'')"
    by code_simp
  have q: "''ROOT_URLCONF = '' @ [CHR 0x22] @ ''My_Blog'' @ ''.urls'' @ [CHR 0x22]
      = (''ROOT_URLCONF = '' @ [CHR 0x22] @ ''My_Blog.urls'' @ [CHR 0x22])"
    by simp
  show ?thesis
    using n h1 h2 h3 fixer_sets_root_urlconf [OF h1 h2 h3]
    unfolding n r q by simp
qed

theorem fixer_root_urlconf_lost_counterexample:
  "str_in (''ROOT_URLCONF = '' @ [CHR 0x22] @ ''old.urls'' @ [CHR 0x22])
       (''WSGI_APPLICATION = 'ROOT_URLCONF = '' @ [CHR 0x22] @ ''old.urls'' @ [CHR 0x22] @ ''\<newline>'')
   \<and> fix_project_references
       [([''proj'', ''proj'', ''settings.py''], File (''WSGI_APPLICATION = 'ROOT_URLCONF = '' @ [CHR 0x22] @ ''old.urls'' @ [CHR 0x22] @ ''\<newline>''))]
       [''proj'', ''proj'', ''settings.py''] ''My_Blog''
     = (None,
        [([''proj'', ''proj'', ''settings.py''], File (''WSGI_APPLICATION = '' @ [CHR 0x22] @ ''My_Blog.wsgi.application'' @ [CHR 0x22] @ ''My_Blog.urls'' @ [CHR 0x22] @ ''\<newline>''))])
   \<and> \<not> str_in (''ROOT_URLCONF = '' @ [CHR 0x22] @ ''My_Blog.urls'' @ [CHR 0x22])
         (''WSGI_APPLICATION = '' @ [CHR 0x22] @ ''My_Blog.wsgi.application'' @ [CHR 0x22] @ ''My_Blog.urls'' @ [CHR 0x22] @ ''\<newline>'')
   \<and> \<not> str_in ''ROOT_URLCONF''
         (''WSGI_APPLICATION = '' @ [CHR 0x22] @ ''My_Blog.wsgi.application'' @ [CHR 0x22] @ ''My_Blog.urls'' @ [CHR 0x22] @ ''\<newline>'')"
  by code_simp

text \<open>
  C5, amended: for a settings text cut in pieces and a safe project name, a first run of
  the fixer succeeds and a second run on its result leaves the file system as the first run
  left it. (The counterexample: a first \<open>ROOT_URLCONF = "\<close> that matches nothing because a
  line ends before the next quote, and a second assignment written over two lines; the
  first run puts the second on one line, and then the first matches.)
\<close>

theorem fixer_twice:
  assumes "safe_name_ok safe_project_name"
    and "list_all piece_ok ps"
    and "read_text fs settings_path = Inr (render ps)"
  shows "\<exists>fs1. fix_project_references fs settings_path safe_project_name = (None, fs1)
           \<and> fix_project_references fs1 settings_path safe_project_name = (None, fs1)"
proof -
  let ?new = "render (map (fixed safe_project_name) ps)"
  let ?fs1 = "AList.update settings_path (File ?new) fs"
  have first: "fix_project_references fs settings_path safe_project_name = (None, ?fs1)"
    using assms by (rule fix_project_references_pieces)
  from assms(3) obtain t where "render ps = universal_newlines t"
    using read_text_InrD by blast
  then have "CR \<notin> set (render ps)"
    by (simp add: universal_newlines_no_CR)
  then have "CR \<notin> set ?new"
    by (rule render_fixed_no_CR [OF assms(1)])
  then have rd: "read_text ?fs1 settings_path = Inr ?new"
    by (simp add: read_text_def map_of_update_same universal_newlines_id)
  have ok: "list_all piece_ok (map (fixed safe_project_name) ps)"
    using assms(2) piece_ok_fixed [OF assms(1)] by (simp add: list_all_iff)
  have "fix_project_references ?fs1 settings_path safe_project_name
      = (None, AList.update settings_path
           (File (render (map (fixed safe_project_name) (map (fixed safe_project_name) ps)))) ?fs1)"
    using assms(1) ok rd by (rule fix_project_references_pieces)
  then have "fix_project_references ?fs1 settings_path safe_project_name = (None, ?fs1)"
    by (simp add: update_update_same comp_def)
  with first show ?thesis
    by blast
qed

theorem fixer_twice_witness:
  "safe_name_ok ''proj''
   \<and> list_all piece_ok
     [Plain ''DEBUG = True\<newline># the ROOT_URLCONF of the project\<newline>'',
      Root (''ROOT_URLCONF = 'old.urls'' @ [CHR 0x27]),
      Plain ''\<newline>'',
      Wsgi (''WSGI_APPLICATION = 'old.wsgi.application'' @ [CHR 0x27]),
      Plain ''\<newline>\<newline>ROOT_URLCONF += '.v2'\<newline>'',
      Root (''ROOT_URLCONF = 'other.urls'' @ [CHR 0x27]),
      Plain ''\<newline>'']
   \<and> read_text
       [([''proj'', ''proj'', ''settings.py''], File ''DEBUG = True\<newline># the ROOT_URLCONF of the project\<newline>ROOT_URLCONF = 'old.urls'\<newline>WSGI_APPLICATION = 'old.wsgi.application'\<newline>\<newline>ROOT_URLCONF += '.v2'\<newline>ROOT_URLCONF = 'other.urls'\<newline>'')]
       [''proj'', ''proj'', ''settings.py'']
     = Inr (render
     [Plain ''DEBUG = True\<newline># the ROOT_URLCONF of the project\<newline>'',
      Root (''ROOT_URLCONF = 'old.urls'' @ [CHR 0x27]),
      Plain ''\<newline>'',
      Wsgi (''WSGI_APPLICATION = 'old.wsgi.application'' @ [CHR 0x27]),
      Plain ''\<newline>\<newline>ROOT_URLCONF += '.v2'\<newline>'',
      Root (''ROOT_URLCONF = 'other.urls'' @ [CHR 0x27]),
      Plain ''\<newline>''])
   \<and> (\<exists>fs1. fix_project_references
          [([''proj'', ''proj'', ''settings.py''], File ''DEBUG = True\<newline># the ROOT_URLCONF of the project\<newline>ROOT_URLCONF = 'old.urls'\<newline>WSGI_APPLICATION = 'old.wsgi.application'\<newline>\<newline>ROOT_URLCONF += '.v2'\<newline>ROOT_URLCONF = 'other.urls'\<newline>'')]
          [''proj'', ''proj'', ''settings.py''] ''proj'' = (None, fs1)
        \<and> fix_project_references fs1 [''proj'', ''proj'', ''settings.py''] ''proj'' = (None, fs1))"
proof -
  let ?ps = "[Plain ''DEBUG = True\<newline># the ROOT_URLCONF of the project\<newline>'',
      Root (''ROOT_URLCONF = 'old.urls'' @ [CHR 0x27]),
      Plain ''\<newline>'',
      Wsgi (''WSGI_APPLICATION = 'old.wsgi.application'' @ [CHR 0x27]),
      Plain ''\<newline>\<newline>ROOT_URLCONF += '.v2'\<newline>'',
      Root (''ROOT_URLCONF = 'other.urls'' @ [CHR 0x27]),
      Plain ''\<newline>'']"
  let ?fs = "[([''proj'', ''proj'', ''settings.py''], File ''DEBUG = True\<newline># the ROOT_URLCONF of the project\<newline>ROOT_URLCONF = 'old.urls'\<newline>WSGI_APPLICATION = 'old.wsgi.application'\<newline>\<newline>ROOT_URLCONF += '.v2'\<newline>ROOT_URLCONF = 'other.urls'\<newline>'')]"
  have h1: "safe_name_ok ''proj''"
    by code_simp
  have h2: "list_all piece_ok ?ps"
    by code_simp
  have h3: "read_text ?fs [''proj'', ''proj'', ''settings.py''] = Inr (render ?ps)"
    by code_simp
  show ?thesis
    using h1 h2 h3 fixer_twice [OF h1 h2 h3] by simp
qed

theorem fixer_twice_counterexample:
  "fix_project_references
       [([''proj'', ''proj'', ''settings.py''], File (''ROOT_URLCONF = '' @ [CHR 0x22] @ ''abc ROOT_URLCONF\<newline>= '' @ [CHR 0x22] @ ''x'' @ [CHR 0x22] @ ''\<newline>''))]
       [''proj'', ''proj'', ''settings.py''] ''proj''
     = (None,
        [([''proj'', ''proj'', ''settings.py''], File (''ROOT_URLCONF = '' @ [CHR 0x22] @ ''abc ROOT_URLCONF = '' @ [CHR 0x22] @ ''proj.urls'' @ [CHR 0x22] @ ''\<newline>''))])
   \<and> fix_project_references
       [([''proj'', ''proj'', ''settings.py''], File (''ROOT_URLCONF = '' @ [CHR 0x22] @ ''abc ROOT_URLCONF = '' @ [CHR 0x22] @ ''proj.urls'' @ [CHR 0x22] @ ''\<newline>''))]
       [''proj'', ''proj'', ''settings.py''] ''proj''
     = (None,
        [([''proj'', ''proj'', ''settings.py''], File (''ROOT_URLCONF = '' @ [CHR 0x22] @ ''proj.urls'' @ [CHR 0x22] @ ''proj.urls'' @ [CHR 0x22] @ ''\<newline>''))])
   \<and> (''ROOT_URLCONF = '' @ [CHR 0x22] @ ''proj.urls'' @ [CHR 0x22] @ ''proj.urls'' @ [CHR 0x22] @ ''\<newline>'')
     \<noteq> (''ROOT_URLCONF = '' @ [CHR 0x22] @ ''abc ROOT_URLCONF = '' @ [CHR 0x22] @ ''proj.urls'' @ [CHR 0x22] @ ''\<newline>'')"
  by code_simp

end
